theory Spec2Isabelle
  imports Main "HOL-Library.AList"
begin

section \<open>The event-driven socket server of ESocketS/socket\_server.py\<close>

text \<open>
  The theory embeds class \<open>Socket\<close> and class \<open>_ClientInfo\<close> of
  \<^verbatim>\<open>ESocketS/socket_server.py\<close>. Python names that start with an underscore
  lose it (\<open>_ClientInfo\<close> is \<open>ClientInfo\<close>); the three stage loops
  \<open>_recv\<close>, \<open>_accept\<close> and \<open>_handle_connects\<close> are
  \<open>serve_recv\<close>, \<open>serve_accept\<close> and \<open>serve_handle_connects\<close>, after the
  table \<open>_serve_threads\<close> that holds them, since \<open>recv\<close> is a method of its own.

  Every method takes the server state and returns it updated, together with its
  result: \<open>Inr v\<close> when it returns \<open>v\<close>, \<open>Inl e\<close> when it raises \<open>e\<close>.
  The state a raising call leaves behind is returned as well.
\<close>

subsection \<open>Values, exceptions and sockets\<close>

type_synonym conn = nat
type_synonym bytes = string
type_synonym addr = string

datatype pyval = Conn conn | Str string | Bytes bytes

text \<open>
  The exceptions the code raises or meets. \<open>WouldBlock\<close>, \<open>ClientDisconnect\<close> and
  \<open>ClientAbnormalDisconnect\<close> are declared in \<^verbatim>\<open>ESocketS/exceptions.py\<close>, which is
  not among the sources; they are taken as three unrelated exception classes, each built
  from one message. \<open>socket_error n t\<close> is a \<open>socket.error\<close> whose \<open>args[0]\<close> is the
  errno \<open>n\<close> and whose text (\<open>str(e)\<close>) is \<open>t\<close>.
\<close>

datatype exn =
    WouldBlock string
  | ClientDisconnect string
  | ClientAbnormalDisconnect string
  | KeyError pyval
  | OSError string
  | TypeError string
  | socket_error int string

text \<open>
  The constants of module \<open>errno\<close>, with their values on Linux, where \<open>EAGAIN\<close> and
  \<open>EWOULDBLOCK\<close> are one number.
\<close>

definition EAGAIN :: int where "EAGAIN = 11"
definition EWOULDBLOCK :: int where "EWOULDBLOCK = 11"
definition EBADF :: int where "EBADF = 9"
definition ENOTCONN :: int where "ENOTCONN = 107"

text \<open>
  A client socket, as far as the code can observe it. \<open>rx_script\<close> lists what the
  coming calls of \<open>conn.recv\<close> meet, in order: an error, or bytes that have arrived
  (no bytes at all: the peer has closed). With nothing listed a non-blocking read has
  nothing to return and fails with \<open>EAGAIN\<close>. \<open>tx_script\<close> does the same for
  \<open>conn.send\<close>: an error, or how many bytes the kernel takes; with nothing listed it
  takes all of them. \<open>reads\<close> logs the size of every read issued, \<open>wire\<close> the bytes
  handed to the kernel.
\<close>

datatype rx = RxError int string | RxData bytes
datatype tx = TxError int string | TxSent nat

record sock =
  rx_script :: "rx list"
  tx_script :: "tx list"
  reads :: "nat list"
  wire :: bytes
  nonblocking :: bool
  broken :: bool
  is_shut :: bool
  is_closed :: bool

definition sock_recv :: "sock \<Rightarrow> nat \<Rightarrow> (exn + bytes) \<times> sock" where
  "sock_recv k bufsize =
     (let k1 = k\<lparr>reads := reads k @ [bufsize]\<rparr> in
      if is_closed k then (Inl (socket_error EBADF ''Bad file descriptor''), k1)
      else case rx_script k of
        [] \<Rightarrow> (Inl (socket_error EAGAIN ''Resource temporarily unavailable''), k1)
      | RxError e t # rest \<Rightarrow> (Inl (socket_error e t), k1\<lparr>rx_script := rest\<rparr>)
      | RxData d # rest \<Rightarrow>
          (Inr (take bufsize d),
           k1\<lparr>rx_script := (if length d \<le> bufsize then rest else RxData (drop bufsize d) # rest)\<rparr>))"

definition sock_send :: "sock \<Rightarrow> bytes \<Rightarrow> (exn + nat) \<times> sock" where
  "sock_send k data =
     (if is_closed k then (Inl (socket_error EBADF ''Bad file descriptor''), k)
      else case tx_script k of
        [] \<Rightarrow> (Inr (length data), k\<lparr>wire := wire k @ data\<rparr>)
      | TxError e t # rest \<Rightarrow> (Inl (socket_error e t), k\<lparr>tx_script := rest\<rparr>)
      | TxSent n # rest \<Rightarrow>
          (Inr (min n (length data)),
           k\<lparr>tx_script := rest, wire := wire k @ take (min n (length data)) data\<rparr>))"

text \<open>\<open>conn.shutdown(socket.SHUT_RDWR)\<close> fails on a connection the peer already broke.\<close>

definition sock_shutdown :: "sock \<Rightarrow> (exn + unit) \<times> sock" where
  "sock_shutdown k =
     (if is_closed k then (Inl (socket_error EBADF ''Bad file descriptor''), k)
      else if broken k then (Inl (socket_error ENOTCONN ''Transport endpoint is not connected''), k)
      else (Inr (), k\<lparr>is_shut := True\<rparr>))"

definition sock_close :: "sock \<Rightarrow> sock" where
  "sock_close k = k\<lparr>is_closed := True\<rparr>"

subsection \<open>The client record and the server state\<close>

text \<open>
  \<open>callback_function\<close> is always the bound method \<open>self.recv\<close>. The lock
  \<open>send_lock\<close> is an attribute of the class: \<open>threading.Lock()\<close> runs once, in the
  class body, and \<open>__init__\<close> assigns no lock, so reading \<open>client.send_lock\<close> finds
  the lock of the class.
\<close>

datatype callback = Socket_recv

type_synonym lock_id = nat

record ClientInfo =
  address :: addr
  callback_function :: callback
  callback_args :: "pyval list"

definition ClientInfo_send_lock :: lock_id where
  "ClientInfo_send_lock = 0"

definition send_lock :: "ClientInfo \<Rightarrow> lock_id" where
  "send_lock client = ClientInfo_send_lock"

datatype hook = on_recv | on_connect | on_disconnect | on_abnormal_disconnect
  | on_start | on_stop | on_warning

datatype policy_key = Hook hook | client_callback

datatype stage = Stage_recv | Stage_accept | Stage_handle_connects

text \<open>
  What the server does to the world, in the order it does it. The seven hooks are
  the no-ops of the class (\<open>pass\<close>): calling one (\<open>Call\<close>) or starting it on a
  thread of its own (\<open>Spawn\<close>) is recorded and changes nothing else.
\<close>

datatype event =
    Call hook "pyval list"
  | Spawn hook "pyval list"
  | EpollRegister conn
  | EpollUnregister conn
  | SockShutdown conn
  | SockClose conn
  | RegistryDel conn
  | RegistryClear
  | DispatchThread callback "pyval list"
  | DispatchInline callback "pyval list"
  | LockAcquire lock_id
  | LockRelease lock_id
  | SetStopSignal
  | ServerBind
  | ServerListen
  | ServeThreadsStart
  | ServerShutdown
  | ServerClose

text \<open>
  \<open>clients\<close> is the dictionary \<open>Socket.clients\<close>, in insertion order;
  \<open>server_socket\<close> is the listening socket \<open>Socket._server_socket\<close>; \<open>epoll\<close> is
  the watch set of the selector \<open>self._epoll\<close>, with the data registered for each
  connection; \<open>threads\<close> are the receive dispatches started on a thread and not yet
  run; \<open>suspended\<close> are the reasons of the \<open>stop\<close> calls that wait for the stages.
\<close>

record server =
  clients :: "(conn \<times> ClientInfo) list"
  started :: bool
  stop_signal :: bool
  server_socket :: sock
  accept_queue :: "(conn \<times> addr) list"
  epoll :: "conn \<rightharpoonup> callback \<times> pyval list"
  run_in_subthread :: "policy_key \<Rightarrow> bool"
  stop_events :: "stage \<Rightarrow> bool"
  threads :: "(callback \<times> pyval list) list"
  suspended :: "string list"
  net :: "conn \<Rightarrow> sock"
  locks :: "lock_id \<Rightarrow> bool"
  trace :: "event list"

definition log :: "event \<Rightarrow> server \<Rightarrow> server" where
  "log ev s = s\<lparr>trace := trace s @ [ev]\<rparr>"

definition fire :: "server \<Rightarrow> hook \<Rightarrow> pyval list \<Rightarrow> event" where
  "fire s h args = (if run_in_subthread s (Hook h) then Spawn h args else Call h args)"

definition call_on_function :: "server \<Rightarrow> hook \<Rightarrow> pyval list \<Rightarrow> server" where
  "call_on_function s on_function args =
     (if run_in_subthread s (Hook on_function)
      then log (Spawn on_function args) s
      else log (Call on_function args) s)"

subsection \<open>register and unregister\<close>

text \<open>
  The selector is modelled by its documented contract on open sockets: \<open>register\<close>
  raises \<open>KeyError\<close> for a file object that is registered already, \<open>unregister\<close>
  for one that is not.
\<close>

definition register :: "server \<Rightarrow> conn \<Rightarrow> bool \<Rightarrow> (exn + unit) \<times> server" where
  "register s conn silent =
     (case map_of (clients s) conn of
        None \<Rightarrow> (Inl (KeyError (Conn conn)), s)
      | Some client \<Rightarrow>
          (let s1 = log (EpollRegister conn) s in
           case epoll s conn of
             None \<Rightarrow>
               (Inr (),
                s1\<lparr>epoll := (epoll s)(conn \<mapsto> (callback_function client, callback_args client))\<rparr>)
           | Some d \<Rightarrow>
               if \<not> silent then (Inl (KeyError (Str ''Client already registered'')), s1)
               else (Inr (), s1)))"

definition unregister :: "server \<Rightarrow> conn \<Rightarrow> bool \<Rightarrow> (exn + unit) \<times> server" where
  "unregister s conn silent =
     (let s1 = log (EpollUnregister conn) s in
      case epoll s conn of
        Some d \<Rightarrow> (Inr (), s1\<lparr>epoll := (epoll s)(conn := None)\<rparr>)
      | None \<Rightarrow>
          if \<not> silent then (Inl (KeyError (Str ''Client not registered'')), s1)
          else (Inr (), s1))"

subsection \<open>recv\_raw and recv\<close>

definition recv_raw :: "sock \<Rightarrow> nat \<Rightarrow> (exn + bytes) \<times> sock" where
  "recv_raw conn bufsize =
     (case sock_recv conn bufsize of
        (Inl (socket_error err t), conn') \<Rightarrow>
          if err = EAGAIN \<or> err = EWOULDBLOCK
          then (Inl (WouldBlock ''Tried to read client socket but no data was available''), conn')
          else (Inl (ClientAbnormalDisconnect (''socket.error while receiving: '' @ t)), conn')
      | (Inl (OSError t), conn') \<Rightarrow>
          (Inl (ClientAbnormalDisconnect (''socket.error while receiving: '' @ t)), conn')
      | (Inl e, conn') \<Rightarrow> (Inl e, conn')
      | (Inr data, conn') \<Rightarrow>
          if data = [] then (Inl (ClientDisconnect ''Received empty bytes array''), conn')
          else (Inr data, conn'))"

text \<open>
  \<open>recv\<close> returns the bytes, or \<open>None\<close> after a disconnect handler ran. Its handler
  for \<open>ClientAbnormalDisconnect\<close> passes \<open>err[0]\<close> to the hook; what subscripting
  an instance of that class gives is decided in \<^verbatim>\<open>ESocketS/exceptions.py\<close>, so it is the
  parameter \<open>getitem\<close>: from the message the exception was built with, to the value of
  \<open>err[0]\<close> or the exception the subscript raises.
\<close>

definition recv ::
  "(string \<Rightarrow> exn + pyval) \<Rightarrow> server \<Rightarrow> conn \<Rightarrow> nat \<Rightarrow> (exn + bytes option) \<times> server" where
  "recv getitem s conn bufsize =
     (case recv_raw (net s conn) bufsize of (r, k) \<Rightarrow>
        (let s1 = s\<lparr>net := (net s)(conn := k)\<rparr> in
         case r of
           Inl (ClientDisconnect m) \<Rightarrow> (Inr None, call_on_function s1 on_disconnect [Conn conn])
         | Inl (ClientAbnormalDisconnect m) \<Rightarrow>
             (case getitem m of
                Inl e \<Rightarrow> (Inl e, s1)
              | Inr v \<Rightarrow> (Inr None, call_on_function s1 on_abnormal_disconnect [Conn conn, v]))
         | Inl e \<Rightarrow> (Inl e, s1)
         | Inr data \<Rightarrow> (Inr (Some data), call_on_function s1 on_recv [Conn conn, Bytes data])))"

subsection \<open>disconnect\<close>

text \<open>\<open>socket.error\<close> is \<open>OSError\<close>: a handler for it takes both.\<close>

definition is_socket_error :: "exn \<Rightarrow> bool" where
  "is_socket_error e = (case e of socket_error n t \<Rightarrow> True | OSError t \<Rightarrow> True | _ \<Rightarrow> False)"

datatype target = All | One conn

text \<open>The body of the loop of \<open>disconnect\<close>, for one connection.\<close>

definition disconnect_client ::
  "server \<Rightarrow> conn \<Rightarrow> bool \<Rightarrow> string \<Rightarrow> bool \<Rightarrow> (exn + unit) \<times> server" where
  "disconnect_client s client normal msg silent =
     (case unregister s client True of
        (Inl e, s1) \<Rightarrow> (Inl e, s1)
      | (Inr u, s1) \<Rightarrow>
          (let s2 = log (SockShutdown client) s1 in
           case sock_shutdown (net s2 client) of (r, k) \<Rightarrow>
             (let s3 = s2\<lparr>net := (net s2)(client := k)\<rparr> in
              if (case r of Inl e \<Rightarrow> \<not> is_socket_error e | Inr u \<Rightarrow> False) then (r, s3)
              else
                (let s4 = (log (SockClose client) s3)\<lparr>net := (net s3)(client := sock_close k)\<rparr>
                 in if normal \<and> \<not> silent
                    then (Inr (), call_on_function s4 on_disconnect [Conn client])
                    else if \<not> silent
                    then (Inr (), call_on_function s4 on_abnormal_disconnect [Conn client, Str msg])
                    else (Inr (), s4)))))"

fun disconnect_each ::
  "server \<Rightarrow> conn list \<Rightarrow> bool \<Rightarrow> string \<Rightarrow> bool \<Rightarrow> (exn + unit) \<times> server" where
  "disconnect_each s [] normal msg silent = (Inr (), s)"
| "disconnect_each s (client # rest) normal msg silent =
     (case disconnect_client s client normal msg silent of
        (Inl e, s') \<Rightarrow> (Inl e, s')
      | (Inr u, s') \<Rightarrow> disconnect_each s' rest normal msg silent)"

definition disconnect ::
  "server \<Rightarrow> target \<Rightarrow> bool \<Rightarrow> string \<Rightarrow> bool \<Rightarrow> (exn + unit) \<times> server" where
  "disconnect s conn normal msg silent =
     (case disconnect_each s (case conn of All \<Rightarrow> map fst (clients s) | One c \<Rightarrow> [c])
             normal msg silent of
        (Inl e, s') \<Rightarrow> (Inl e, s')
      | (Inr u, s') \<Rightarrow>
          (case conn of
             All \<Rightarrow> (Inr (), (log RegistryClear s')\<lparr>clients := []\<rparr>)
           | One c \<Rightarrow>
               (case map_of (clients s') c of
                  None \<Rightarrow> (Inl (KeyError (Conn c)), s')
                | Some client \<Rightarrow>
                    (Inr (), (log (RegistryDel c) s')\<lparr>clients := AList.delete c (clients s')\<rparr>))))"

text \<open>What \<open>disconnect\<close> does for one connection, in order, before the registry changes.\<close>

definition disconnect_events :: "server \<Rightarrow> bool \<Rightarrow> string \<Rightarrow> bool \<Rightarrow> conn \<Rightarrow> event list" where
  "disconnect_events s normal msg silent c =
     [EpollUnregister c, SockShutdown c, SockClose c] @
     (if silent then []
      else if normal then [fire s on_disconnect [Conn c]]
      else [fire s on_abnormal_disconnect [Conn c, Str msg]])"

subsection \<open>start and stop\<close>

text \<open>
  A call that can wait for another thread has a third outcome: \<open>Blocks\<close>, with the
  state in which it waits.
\<close>

datatype 'a outcome = Returns 'a | Raises exn | Blocks

definition start :: "server \<Rightarrow> (exn + unit) \<times> server" where
  "start s =
     (if started s then (Inl (OSError ''Server can only be started once''), s)
      else (Inr (),
            call_on_function
              (log ServeThreadsStart (log ServerListen (log ServerBind (s\<lparr>started := True\<rparr>))))
              on_start []))"

text \<open>The values of \<open>self._stop_events\<close>, in the order of the dictionary.\<close>

definition stages :: "stage list" where
  "stages = [Stage_recv, Stage_accept, Stage_handle_connects]"

text \<open>
  \<open>for event in self._stop_events.values(): event.wait()\<close> gets past an event that is
  set; no event is ever cleared.
\<close>

fun wait_events :: "(stage \<Rightarrow> bool) \<Rightarrow> stage list \<Rightarrow> bool" where
  "wait_events ev [] = True"
| "wait_events ev (e # es) = (if ev e then wait_events ev es else False)"

text \<open>
  \<open>self._server_socket.shutdown(0)\<close>: shutting down the reading side of the
  listening socket succeeds while the socket is open, and raises \<open>OSError\<close> with
  \<open>EBADF\<close> once the socket is closed.
\<close>

definition listener_shutdown :: "sock \<Rightarrow> (exn + unit) \<times> sock" where
  "listener_shutdown k =
     (if is_closed k then (Inl (socket_error EBADF ''Bad file descriptor''), k)
      else (Inr (), k\<lparr>is_shut := True\<rparr>))"

text \<open>\<open>stop\<close> from its wait on: the three waits, then the last three statements.\<close>

definition stop_wait :: "server \<Rightarrow> string \<Rightarrow> unit outcome \<times> server" where
  "stop_wait s reason =
     (if wait_events (stop_events s) stages
      then (case listener_shutdown (server_socket s) of
              (Inl e, k) \<Rightarrow> (Raises e, (log ServerShutdown s)\<lparr>server_socket := k\<rparr>)
            | (Inr u, k) \<Rightarrow>
                (Returns (),
                 call_on_function
                   ((log ServerClose (log ServerShutdown s))\<lparr>server_socket := sock_close k\<rparr>)
                   on_stop [Str reason]))
      else (Blocks, s))"

definition stop :: "server \<Rightarrow> string \<Rightarrow> unit outcome \<times> server" where
  "stop s reason =
     (if \<not> started s
      then (Raises (OSError ''Can't stop server because it has not been started yet''), s)
      else case disconnect (log SetStopSignal (s\<lparr>stop_signal := True\<rparr>)) All True [] True of
             (Inl e, s2) \<Rightarrow> (Raises e, s2)
           | (Inr u, s2) \<Rightarrow> stop_wait s2 reason)"

subsection \<open>send\_raw\<close>

function send_loop :: "sock \<Rightarrow> bytes \<Rightarrow> nat \<Rightarrow> (exn + unit) \<times> sock" where
  "send_loop conn data total_sent =
     (if total_sent < length data then
        (case sock_send conn (drop total_sent data) of
           (Inl e, conn') \<Rightarrow> (Inl e, conn')
         | (Inr sent, conn') \<Rightarrow>
             if sent = 0 then (Inl (ClientAbnormalDisconnect ''Sent empty array''), conn')
             else send_loop conn' data (total_sent + sent))
      else (Inr (), conn))"
  by pat_completeness auto
termination
  by (relation "measure (\<lambda>(conn, data, total_sent). length data - total_sent)") auto

declare send_loop.simps [simp del]

definition send_raw :: "server \<Rightarrow> conn \<Rightarrow> bytes \<Rightarrow> bool \<Rightarrow> unit outcome \<times> server" where
  "send_raw s conn data block =
     (case map_of (clients s) conn of
        None \<Rightarrow> (Raises (KeyError (Conn conn)), s)
      | Some client \<Rightarrow>
          if block \<and> locks s (send_lock client) then (Blocks, s)
          else
            (let s1 = (if block
                       then (log (LockAcquire (send_lock client)) s)
                              \<lparr>locks := (locks s)(send_lock client := True)\<rparr>
                       else s)
             in case send_loop (net s1 conn) data 0 of (r, k) \<Rightarrow>
               (let s2 = s1\<lparr>net := (net s1)(conn := k)\<rparr>;
                    s3 = (if block
                          then (log (LockRelease (send_lock client)) s2)
                                 \<lparr>locks := (locks s2)(send_lock client := False)\<rparr>
                          else s2)
                in (case r of Inl e \<Rightarrow> Raises e | Inr u \<Rightarrow> Returns (), s3))))"

subsection \<open>The three stages\<close>

text \<open>
  Calling the callback of a selector key, \<open>key.data[0](*key.data[1])\<close>: the
  function is \<open>self.recv\<close>, which takes the connection and reads with its default
  size; any other argument list is a \<open>TypeError\<close>.
\<close>

definition apply_callback ::
  "(string \<Rightarrow> exn + pyval) \<Rightarrow> server \<Rightarrow> callback \<Rightarrow> pyval list \<Rightarrow>
   (exn + bytes option) \<times> server" where
  "apply_callback getitem s f args =
     (case f of Socket_recv \<Rightarrow>
        (case args of
           [Conn c] \<Rightarrow> recv getitem s c 4096
         | _ \<Rightarrow> (Inl (TypeError ''recv() takes a connection''), s)))"

text \<open>
  \<open>self._epoll.select\<close>: of the connections the kernel reports readable, each once,
  those that are in the watch set, with the data registered for them. A key is the
  pair of \<open>key.fileobj\<close> and \<open>key.data\<close>.
\<close>

type_synonym selector_key = "conn \<times> (callback \<times> pyval list)"

definition select :: "server \<Rightarrow> conn list \<Rightarrow> selector_key list" where
  "select s ready =
     concat (map (\<lambda>c. case epoll s c of None \<Rightarrow> [] | Some d \<Rightarrow> [(c, d)]) (remdups ready))"

text \<open>The body of the loop over the events in \<open>_recv\<close>.\<close>

definition dispatch ::
  "(string \<Rightarrow> exn + pyval) \<Rightarrow> server \<Rightarrow> selector_key \<Rightarrow> (exn + unit) \<times> server" where
  "dispatch getitem s key =
     (case unregister s (fst key) False of
        (Inl e, s1) \<Rightarrow> (Inl e, s1)
      | (Inr u, s1) \<Rightarrow>
          if run_in_subthread s1 client_callback
          then (Inr (),
                (log (DispatchThread (fst (snd key)) (snd (snd key))) s1)
                  \<lparr>threads := threads s1 @ [snd key]\<rparr>)
          else
            (case apply_callback getitem (log (DispatchInline (fst (snd key)) (snd (snd key))) s1)
                    (fst (snd key)) (snd (snd key)) of
               (Inl e, s2) \<Rightarrow> (Inl e, s2)
             | (Inr v, s2) \<Rightarrow> (Inr (), s2)))"

fun dispatch_events ::
  "(string \<Rightarrow> exn + pyval) \<Rightarrow> server \<Rightarrow> selector_key list \<Rightarrow> (exn + unit) \<times> server" where
  "dispatch_events getitem s [] = (Inr (), s)"
| "dispatch_events getitem s (key # keys) =
     (case dispatch getitem s key of
        (Inl e, s') \<Rightarrow> (Inl e, s')
      | (Inr u, s') \<Rightarrow> dispatch_events getitem s' keys)"

text \<open>
  The \<open>finally\<close> clause of a stage: its event is set, and when the stop flag is not
  set the stage calls \<open>stop\<close> itself. A \<open>stop\<close> that blocks is noted in
  \<open>suspended\<close>; an exception of \<open>stop\<close> ends the thread of the stage.
\<close>

definition stage_finally :: "server \<Rightarrow> stage \<Rightarrow> string \<Rightarrow> server" where
  "stage_finally s st reason =
     (let s1 = s\<lparr>stop_events := (stop_events s)(st := True)\<rparr> in
      if \<not> stop_signal s1
      then (case stop s1 reason of
              (Blocks, s2) \<Rightarrow> s2\<lparr>suspended := suspended s2 @ [reason]\<rparr>
            | (r, s2) \<Rightarrow> s2)
      else s1)"

text \<open>
  One turn of the loop of a stage, the \<open>finally\<close> clause included when the turn ends
  the loop. The thread of a stage runs from \<open>start\<close> until its event is set.
  \<open>ready\<close> are the connections the kernel reports readable to this \<open>select\<close>.
\<close>

definition serve_recv :: "(string \<Rightarrow> exn + pyval) \<Rightarrow> server \<Rightarrow> conn list \<Rightarrow> server" where
  "serve_recv getitem s ready =
     (if \<not> started s \<or> stop_events s Stage_recv then s
      else if stop_signal s then stage_finally s Stage_recv ''Error in _recv''
      else case dispatch_events getitem s (select s ready) of
             (Inl e, s1) \<Rightarrow> stage_finally s1 Stage_recv ''Error in _recv''
           | (Inr u, s1) \<Rightarrow> s1)"

text \<open>\<open>accepted\<close> is what \<open>accept()\<close> gives: a connection, or \<open>BlockingIOError\<close>.\<close>

definition serve_accept :: "server \<Rightarrow> (conn \<times> addr) option \<Rightarrow> server" where
  "serve_accept s accepted =
     (if \<not> started s \<or> stop_events s Stage_accept then s
      else if stop_signal s then stage_finally s Stage_accept ''Error in _accept''
      else case accepted of
             None \<Rightarrow> s
           | Some (conn, peer) \<Rightarrow> s\<lparr>accept_queue := accept_queue s @ [(conn, peer)]\<rparr>)"

definition serve_handle_connects :: "server \<Rightarrow> server" where
  "serve_handle_connects s =
     (if \<not> started s \<or> stop_events s Stage_handle_connects then s
      else if stop_signal s then stage_finally s Stage_handle_connects ''Error in _handle_connects''
      else case accept_queue s of
             [] \<Rightarrow> s
           | (conn, peer) # rest \<Rightarrow>
               (let s1 = s\<lparr>accept_queue := rest,
                           net := (net s)(conn := (net s conn)\<lparr>nonblocking := True\<rparr>)\<rparr>;
                    client = \<lparr>address = peer, callback_function = Socket_recv,
                              callback_args = [Conn conn]\<rparr>;
                    s2 = s1\<lparr>clients := AList.update conn client (clients s1)\<rparr>
                in call_on_function s2 on_connect [Conn conn]))"

subsection \<open>Runs of the server\<close>

text \<open>
  What the threads of a running server and its surroundings can do, one step at a
  time: the calls of the application, one turn of each stage, a dispatch thread
  running its callback to the end, a peer sending, and a blocked \<open>stop\<close> looking at
  the events again.
\<close>

datatype action =
    Start
  | Stop string
  | Register conn bool
  | Unregister conn bool
  | Disconnect target bool string bool
  | Send conn bytes bool
  | Accept "(conn \<times> addr) option"
  | Admit
  | Poll "conn list"
  | ThreadRun nat
  | PeerSends conn rx
  | Resume

definition step :: "(string \<Rightarrow> exn + pyval) \<Rightarrow> server \<Rightarrow> action \<Rightarrow> server" where
  "step getitem s a =
     (case a of
        Start \<Rightarrow> snd (start s)
      | Stop reason \<Rightarrow>
          (case stop s reason of
             (Blocks, s') \<Rightarrow> s'\<lparr>suspended := suspended s' @ [reason]\<rparr>
           | (r, s') \<Rightarrow> s')
      | Register c silent \<Rightarrow> snd (register s c silent)
      | Unregister c silent \<Rightarrow> snd (unregister s c silent)
      | Disconnect tg normal msg silent \<Rightarrow> snd (disconnect s tg normal msg silent)
      | Send c data block \<Rightarrow> snd (send_raw s c data block)
      | Accept accepted \<Rightarrow> serve_accept s accepted
      | Admit \<Rightarrow> serve_handle_connects s
      | Poll ready \<Rightarrow> serve_recv getitem s ready
      | ThreadRun i \<Rightarrow>
          (if i < length (threads s)
           then snd (apply_callback getitem
                  (s\<lparr>threads := take i (threads s) @ drop (Suc i) (threads s)\<rparr>)
                  (fst (threads s ! i)) (snd (threads s ! i)))
           else s)
      | PeerSends c x \<Rightarrow>
          s\<lparr>net := (net s)(c := (net s c)\<lparr>rx_script := rx_script (net s c) @ [x]\<rparr>)\<rparr>
      | Resume \<Rightarrow>
          (case suspended s of
             [] \<Rightarrow> s
           | reason # rest \<Rightarrow>
               (case stop_wait s reason of
                  (Blocks, s') \<Rightarrow> s
                | (r, s') \<Rightarrow> s'\<lparr>suspended := rest\<rparr>)))"

definition run :: "(string \<Rightarrow> exn + pyval) \<Rightarrow> server \<Rightarrow> action list \<Rightarrow> server" where
  "run getitem s acts = foldl (step getitem) s acts"

text \<open>The receive dispatches of connection \<open>c\<close> that are in flight.\<close>

definition dispatching :: "server \<Rightarrow> conn \<Rightarrow> nat" where
  "dispatching s c = length (filter (\<lambda>t. snd t = [Conn c]) (threads s))"

text \<open>
  A run in which \<open>register\<close> is called on a connection only while no receive dispatch
  of that connection is in flight.
\<close>

fun rearm_when_idle :: "(string \<Rightarrow> exn + pyval) \<Rightarrow> server \<Rightarrow> action list \<Rightarrow> bool" where
  "rearm_when_idle getitem s [] = True"
| "rearm_when_idle getitem s (a # acts) =
     ((case a of Register c silent \<Rightarrow> dispatching s c = 0 | _ \<Rightarrow> True) \<and>
      rearm_when_idle getitem (step getitem s a) acts)"

subsection \<open>Invariants of runs\<close>

text \<open>
  \<open>recv_fired\<close> are the connections for which the hook \<open>on_recv\<close> fired in a
  trace; \<open>registered\<close> are the connections on which a run calls \<open>register\<close>.
  \<open>wf_data\<close> says that the records and the watch set hold \<open>self.recv\<close> bound to
  their own connection; \<open>calm\<close> relates a state to one in which nothing was armed,
  dispatched or received; \<open>one_shot\<close> and \<open>reg_inv\<close> are the invariants of the
  dispatch loop.
\<close>

definition recv_fired :: "event list \<Rightarrow> conn set" where
  "recv_fired tr =
     {c. \<exists>args. Call on_recv (Conn c # args) \<in> set tr \<or> Spawn on_recv (Conn c # args) \<in> set tr}"

definition wf_data :: "server \<Rightarrow> bool" where
  "wf_data s =
     ((\<forall>c d. epoll s c = Some d \<longrightarrow> d = (Socket_recv, [Conn c])) \<and>
      (\<forall>c ci. map_of (clients s) c = Some ci \<longrightarrow>
         callback_function ci = Socket_recv \<and> callback_args ci = [Conn c]))"

definition calm :: "server \<Rightarrow> server \<Rightarrow> bool" where
  "calm s s' =
     (threads s' = threads s \<and>
      (\<forall>c. epoll s' c = None \<or> epoll s' c = epoll s c) \<and>
      recv_fired (trace s') = recv_fired (trace s) \<and>
      (\<forall>c ci. map_of (clients s') c = Some ci \<longrightarrow>
         map_of (clients s) c = Some ci \<or>
         (callback_function ci = Socket_recv \<and> callback_args ci = [Conn c])))"

definition one_shot :: "server \<Rightarrow> bool" where
  "one_shot s = (\<forall>c. dispatching s c \<le> 1 \<and> (epoll s c \<noteq> None \<longrightarrow> dispatching s c = 0))"

definition reg_inv :: "conn set \<Rightarrow> server \<Rightarrow> bool" where
  "reg_inv R s =
     ((\<forall>c. epoll s c \<noteq> None \<longrightarrow> c \<in> R) \<and>
      (\<forall>t \<in> set (threads s). \<forall>c. snd t = [Conn c] \<longrightarrow> c \<in> R) \<and>
      recv_fired (trace s) \<subseteq> R)"

definition registered :: "action list \<Rightarrow> conn set" where
  "registered acts = {c. \<exists>silent. Register c silent \<in> set acts}"


subsection \<open>The state a fresh server starts from\<close>

text \<open>
  A socket on which nothing has happened yet, and the state \<open>__init__\<close> leaves: no
  client, the listening socket open and non-blocking, nothing watched, every hook
  called inline and the receive dispatch run on a thread of its own
  (\<open>'client_callback': True\<close>).
\<close>

definition sock0 :: sock where
  "sock0 = \<lparr>rx_script = [], tx_script = [], reads = [], wire = [], nonblocking = False,
     broken = False, is_shut = False, is_closed = False\<rparr>"

definition Socket_init :: server where
  "Socket_init = \<lparr>clients = [], started = False, stop_signal = False,
     server_socket = sock0\<lparr>nonblocking := True\<rparr>, accept_queue = [],
     epoll = Map.empty, run_in_subthread = (\<lambda>k. k = client_callback),
     stop_events = (\<lambda>e. False), threads = [], suspended = [], net = (\<lambda>c. sock0),
     locks = (\<lambda>l. False), trace = []\<rparr>"

text \<open>A server whose registry holds connection 1, as admission records it.\<close>

definition one_client :: server where
  "one_client = Socket_init\<lparr>clients :=
     [(1, \<lparr>address = ''peer'', callback_function = Socket_recv, callback_args = [Conn 1]\<rparr>)]\<rparr>"

definition with_rx :: "server \<Rightarrow> conn \<Rightarrow> rx list \<Rightarrow> server" where
  "with_rx s c script = s\<lparr>net := (net s)(c := (net s c)\<lparr>rx_script := script\<rparr>)\<rparr>"

text \<open>
  Two admitted connections on a started server: connection 1 is watched, the peer of
  connection 2 has broken it.
\<close>

definition two_clients :: server where
  "two_clients = Socket_init\<lparr>
     clients := [(1, \<lparr>address = ''peer1'', callback_function = Socket_recv, callback_args = [Conn 1]\<rparr>),
                 (2, \<lparr>address = ''peer2'', callback_function = Socket_recv, callback_args = [Conn 2]\<rparr>)],
     started := True,
     epoll := [1 \<mapsto> (Socket_recv, [Conn 1])],
     net := (\<lambda>c. if c = 2 then sock0\<lparr>broken := True\<rparr> else sock0)\<rparr>"

text \<open>A script entry on which the kernel takes at least one byte.\<close>

definition accepts :: "tx \<Rightarrow> bool" where
  "accepts x = (case x of TxSent n \<Rightarrow> 0 < n | TxError e t \<Rightarrow> False)"

definition with_tx :: "server \<Rightarrow> conn \<Rightarrow> tx list \<Rightarrow> server" where
  "with_tx s c script = s\<lparr>net := (net s)(c := (net s c)\<lparr>tx_script := script\<rparr>)\<rparr>"

subsection \<open>What the receive loop itself does\<close>

text \<open>
  The events of a trace that the loop of \<open>_recv\<close> writes itself: the removal of a
  connection from the watch set and the start of its callback, on a thread or
  inline. What the callback does in between is left out. \<open>dispatch_mark\<close> is the
  start event of a key under the policy of the server.
\<close>

definition is_loop_event :: "event \<Rightarrow> bool" where
  "is_loop_event ev =
     (case ev of EpollUnregister c \<Rightarrow> True | DispatchThread f a \<Rightarrow> True
      | DispatchInline f a \<Rightarrow> True | _ \<Rightarrow> False)"

definition loop_events :: "event list \<Rightarrow> event list" where
  "loop_events tr = filter is_loop_event tr"

definition dispatch_mark :: "server \<Rightarrow> selector_key \<Rightarrow> event" where
  "dispatch_mark s key =
     (if run_in_subthread s client_callback
      then DispatchThread (fst (snd key)) (snd (snd key))
      else DispatchInline (fst (snd key)) (snd (snd key)))"

text \<open>
  The calls by which two connections are accepted, admitted and armed on a started
  server, and their peers send one message each.
\<close>

definition arm_two :: "action list" where
  "arm_two =
     [Start, Accept (Some (1, ''peer1'')), Accept (Some (2, ''peer2'')), Admit, Admit,
      Register 1 False, Register 2 False, PeerSends 1 (RxData ''a''), PeerSends 2 (RxData ''b'')]"

section \<open>Properties\<close>

lemma sock_recv_reads: "reads (snd (sock_recv k n)) = reads k @ [n]"
  by (simp add: sock_recv_def Let_def split: list.split rx.split)

subsection \<open>recv\_raw\<close>

text \<open>
  C5. A call of \<open>recv_raw\<close> issues exactly one read, of the size it was given: the
  socket it leaves is the one that single read leaves, and the log of reads grows by
  that one size. A socket error whose errno is \<open>EAGAIN\<close> or \<open>EWOULDBLOCK\<close> becomes
  \<open>WouldBlock\<close>, any other socket error becomes \<open>ClientAbnormalDisconnect\<close> with the
  text of the error, a read of no bytes becomes \<open>ClientDisconnect\<close>, and bytes that
  were read are returned, at most \<open>bufsize\<close> of them.
\<close>

theorem recv_raw_classifies:
  "snd (recv_raw k n) = snd (sock_recv k n) \<and>
   reads (snd (recv_raw k n)) = reads k @ [n] \<and>
   (\<forall>e t. fst (sock_recv k n) = Inl (socket_error e t) \<longrightarrow>
      fst (recv_raw k n) =
        (if e = EAGAIN \<or> e = EWOULDBLOCK
         then Inl (WouldBlock ''Tried to read client socket but no data was available'')
         else Inl (ClientAbnormalDisconnect (''socket.error while receiving: '' @ t)))) \<and>
   (fst (sock_recv k n) = Inr [] \<longrightarrow>
      fst (recv_raw k n) = Inl (ClientDisconnect ''Received empty bytes array'')) \<and>
   (\<forall>d. fst (sock_recv k n) = Inr d \<and> d \<noteq> [] \<longrightarrow>
      fst (recv_raw k n) = Inr d \<and> length d \<le> n)"
proof -
  have a: "snd (recv_raw k n) = snd (sock_recv k n)"
    by (simp add: recv_raw_def split: prod.split sum.split exn.split)
  have b: "\<And>d. fst (sock_recv k n) = Inr d \<Longrightarrow> length d \<le> n"
    by (auto simp add: sock_recv_def Let_def split: if_splits list.splits rx.splits)
  show ?thesis
    using a b by (auto simp add: sock_recv_reads recv_raw_def split: prod.split)
qed

theorem recv_raw_classifies_witness:
  "fst (recv_raw (sock0\<lparr>rx_script := [RxData ''hello'']\<rparr>) 4) = Inr ''hell'' \<and>
   fst (recv_raw (sock0\<lparr>rx_script := [RxData []]\<rparr>) 4) =
     Inl (ClientDisconnect ''Received empty bytes array'') \<and>
   fst (recv_raw (sock0\<lparr>rx_script := [RxError 104 ''reset'']\<rparr>) 4) =
     Inl (ClientAbnormalDisconnect ''socket.error while receiving: reset'') \<and>
   fst (recv_raw sock0 4) =
     Inl (WouldBlock ''Tried to read client socket but no data was available'') \<and>
   reads (snd (recv_raw sock0 4)) = [4]"
  using recv_raw_classifies [of "sock0\<lparr>rx_script := [RxData ''hello'']\<rparr>" 4]
    recv_raw_classifies [of "sock0\<lparr>rx_script := [RxData []]\<rparr>" 4]
    recv_raw_classifies [of "sock0\<lparr>rx_script := [RxError 104 ''reset'']\<rparr>" 4]
    recv_raw_classifies [of sock0 4]
  by (simp add: sock_recv_def sock0_def EAGAIN_def EWOULDBLOCK_def)

subsection \<open>register and unregister\<close>

text \<open>
  C9. For a connection of the registry, \<open>register\<close> arms it in the watch set with
  the callback and arguments of its record; on a connection that is armed already it
  raises \<open>KeyError('Client already registered')\<close>, unless \<open>silent\<close>. \<open>unregister\<close>
  disarms it; on a connection that is not armed it raises
  \<open>KeyError('Client not registered')\<close>, unless \<open>silent\<close>. With \<open>silent\<close> both
  return normally whatever the watch set holds.
\<close>

theorem register_unregister_contract:
  "map_of (clients s) conn = Some client \<Longrightarrow>
   (epoll s conn = None \<longrightarrow>
      register s conn silent =
        (Inr (), (log (EpollRegister conn) s)
           \<lparr>epoll := (epoll s)(conn \<mapsto> (callback_function client, callback_args client))\<rparr>) \<and>
      unregister s conn False =
        (Inl (KeyError (Str ''Client not registered'')), log (EpollUnregister conn) s) \<and>
      unregister s conn True = (Inr (), log (EpollUnregister conn) s)) \<and>
   (epoll s conn \<noteq> None \<longrightarrow>
      register s conn False =
        (Inl (KeyError (Str ''Client already registered'')), log (EpollRegister conn) s) \<and>
      register s conn True = (Inr (), log (EpollRegister conn) s) \<and>
      unregister s conn silent =
        (Inr (), (log (EpollUnregister conn) s)\<lparr>epoll := (epoll s)(conn := None)\<rparr>)) \<and>
   fst (register s conn True) = Inr () \<and> fst (unregister s conn True) = Inr ()"
  by (auto simp add: register_def unregister_def Let_def split: option.split)

theorem register_unregister_contract_witness:
  "epoll (snd (register one_client 1 False)) 1 = Some (Socket_recv, [Conn 1]) \<and>
   fst (register (snd (register one_client 1 False)) 1 False) =
     Inl (KeyError (Str ''Client already registered'')) \<and>
   fst (register (snd (register one_client 1 False)) 1 True) = Inr () \<and>
   epoll (snd (unregister (snd (register one_client 1 False)) 1 False)) 1 = None \<and>
   fst (unregister one_client 1 False) = Inl (KeyError (Str ''Client not registered'')) \<and>
   fst (unregister one_client 1 True) = Inr ()"
  using register_unregister_contract [of one_client 1
      "\<lparr>address = ''peer'', callback_function = Socket_recv, callback_args = [Conn 1]\<rparr>" False]
    register_unregister_contract [of "snd (register one_client 1 False)" 1
      "\<lparr>address = ''peer'', callback_function = Socket_recv, callback_args = [Conn 1]\<rparr>" False]
  by (simp add: one_client_def Socket_init_def register_def unregister_def log_def)

text \<open>
  C10. On a connection that the registry does not hold, \<open>register\<close> raises the
  \<open>KeyError\<close> of the dictionary lookup, whatever \<open>silent\<close> is, and touches nothing:
  the lookup \<open>self.clients[conn]\<close> stands before the \<open>try\<close> block.
\<close>

theorem register_missing_KeyError:
  "map_of (clients s) conn = None \<Longrightarrow>
   register s conn silent = (Inl (KeyError (Conn conn)), s)"
  by (simp add: register_def)

theorem register_missing_KeyError_witness:
  "map_of (clients Socket_init) 1 = None \<and>
   register Socket_init 1 True = (Inl (KeyError (Conn 1)), Socket_init)"
  using register_missing_KeyError [of Socket_init 1 True]
  by (simp add: Socket_init_def)

subsection \<open>recv\<close>

text \<open>
  What \<open>recv\<close> does after the one read of \<open>recv_raw\<close>, outcome by outcome. The two
  disconnect signals have a handler each. The handler of \<open>ClientAbnormalDisconnect\<close>
  evaluates \<open>err[0]\<close> first: when the subscript raises, that exception leaves
  \<open>recv\<close> and no hook fires. \<open>WouldBlock\<close> has no handler and leaves \<open>recv\<close> as it
  came.
\<close>

lemma recv_branches:
  "recv_raw (net s conn) n = (r, k) \<Longrightarrow>
   (\<forall>m. r = Inl (WouldBlock m) \<longrightarrow>
      recv getitem s conn n = (Inl (WouldBlock m), s\<lparr>net := (net s)(conn := k)\<rparr>)) \<and>
   (\<forall>m. r = Inl (ClientDisconnect m) \<longrightarrow>
      recv getitem s conn n =
        (Inr None, log (fire s on_disconnect [Conn conn]) (s\<lparr>net := (net s)(conn := k)\<rparr>))) \<and>
   (\<forall>m v. r = Inl (ClientAbnormalDisconnect m) \<and> getitem m = Inr v \<longrightarrow>
      recv getitem s conn n =
        (Inr None,
         log (fire s on_abnormal_disconnect [Conn conn, v]) (s\<lparr>net := (net s)(conn := k)\<rparr>))) \<and>
   (\<forall>m e. r = Inl (ClientAbnormalDisconnect m) \<and> getitem m = Inl e \<longrightarrow>
      recv getitem s conn n = (Inl e, s\<lparr>net := (net s)(conn := k)\<rparr>)) \<and>
   (\<forall>d. r = Inr d \<longrightarrow>
      recv getitem s conn n =
        (Inr (Some d),
         log (fire s on_recv [Conn conn, Bytes d]) (s\<lparr>net := (net s)(conn := k)\<rparr>)))"
  by (simp add: recv_def call_on_function_def fire_def log_def)

text \<open>
  With the subscript of a plain exception class of Python 3, which raises
  \<open>TypeError\<close>, an abnormal disconnect makes \<open>recv\<close> raise that \<open>TypeError\<close>, and
  the hook \<open>on_abnormal_disconnect\<close> does not fire.
\<close>

lemma recv_abnormal_subscript_raises:
  "fst (recv (\<lambda>m. Inl (TypeError ''object is not subscriptable''))
          (with_rx one_client 1 [RxError 104 ''reset'']) 1 4096) =
     Inl (TypeError ''object is not subscriptable'') \<and>
   trace (snd (recv (\<lambda>m. Inl (TypeError ''object is not subscriptable''))
          (with_rx one_client 1 [RxError 104 ''reset'']) 1 4096)) = []"
  by (simp add: recv_def recv_raw_def sock_recv_def with_rx_def one_client_def Socket_init_def
      sock0_def EAGAIN_def EWOULDBLOCK_def)

text \<open>
  C1 fails on the code. Of the three signals of \<open>recv_raw\<close>, \<open>recv\<close> turns the two
  disconnects into hooks and lets \<open>WouldBlock\<close> pass: on a connection with nothing to
  read, \<open>recv\<close> raises \<open>WouldBlock\<close> to its caller, and no hook fires. The caller is
  the dispatch loop. With the inline policy the exception leaves \<open>dispatch\<close> and ends
  the loop of \<open>_recv\<close>, whose \<open>finally\<close> clause stops the server: here connection 1
  is watched and reported readable with nothing to read, and the turn of the loop
  ends with the stop flag set, the event of the stage set, both connections closed
  and the registry empty.
\<close>

theorem recv_would_block_raises:
  "fst (recv (\<lambda>m. Inr (Str m)) one_client 1 4096) =
     Inl (WouldBlock ''Tried to read client socket but no data was available'') \<and>
   trace (snd (recv (\<lambda>m. Inr (Str m)) one_client 1 4096)) = trace one_client \<and>
   fst (dispatch (\<lambda>m. Inr (Str m)) (two_clients\<lparr>run_in_subthread := (\<lambda>k. False)\<rparr>)
          (1, (Socket_recv, [Conn 1]))) =
     Inl (WouldBlock ''Tried to read client socket but no data was available'') \<and>
   stop_signal (serve_recv (\<lambda>m. Inr (Str m))
     (two_clients\<lparr>run_in_subthread := (\<lambda>k. False)\<rparr>) [1]) \<and>
   stop_events (serve_recv (\<lambda>m. Inr (Str m))
     (two_clients\<lparr>run_in_subthread := (\<lambda>k. False)\<rparr>) [1]) Stage_recv \<and>
   clients (serve_recv (\<lambda>m. Inr (Str m))
     (two_clients\<lparr>run_in_subthread := (\<lambda>k. False)\<rparr>) [1]) = [] \<and>
   trace (serve_recv (\<lambda>m. Inr (Str m))
     (two_clients\<lparr>run_in_subthread := (\<lambda>k. False)\<rparr>) [1]) =
     [EpollUnregister 1, DispatchInline Socket_recv [Conn 1], SetStopSignal,
      EpollUnregister 1, SockShutdown 1, SockClose 1,
      EpollUnregister 2, SockShutdown 2, SockClose 2, RegistryClear]"
  by (simp add: recv_def recv_raw_def sock_recv_def one_client_def two_clients_def
      Socket_init_def sock0_def EAGAIN_def dispatch_def unregister_def log_def Let_def
      apply_callback_def serve_recv_def select_def stage_finally_def stop_def stop_wait_def
      stages_def disconnect_def disconnect_client_def sock_shutdown_def sock_close_def
      is_socket_error_def)

theorem recv_would_block_raises_witness:
  "map_of (clients one_client) 1 =
     Some \<lparr>address = ''peer'', callback_function = Socket_recv, callback_args = [Conn 1]\<rparr> \<and>
   fst (recv_raw (net one_client 1) 4096) =
     Inl (WouldBlock ''Tried to read client socket but no data was available'') \<and>
   started (two_clients\<lparr>run_in_subthread := (\<lambda>k. False)\<rparr>) \<and>
   \<not> stop_events (two_clients\<lparr>run_in_subthread := (\<lambda>k. False)\<rparr>) Stage_recv \<and>
   \<not> stop_signal (two_clients\<lparr>run_in_subthread := (\<lambda>k. False)\<rparr>) \<and>
   select (two_clients\<lparr>run_in_subthread := (\<lambda>k. False)\<rparr>) [1] = [(1, (Socket_recv, [Conn 1]))] \<and>
   \<not> run_in_subthread (two_clients\<lparr>run_in_subthread := (\<lambda>k. False)\<rparr>) client_callback \<and>
   fst (recv (\<lambda>m. Inr (Str m)) one_client 1 4096) =
     Inl (WouldBlock ''Tried to read client socket but no data was available'') \<and>
   stop_signal (serve_recv (\<lambda>m. Inr (Str m))
     (two_clients\<lparr>run_in_subthread := (\<lambda>k. False)\<rparr>) [1])"
  using recv_would_block_raises
  by (simp add: one_client_def two_clients_def Socket_init_def select_def recv_raw_def
      sock_recv_def sock0_def EAGAIN_def is_socket_error_def)

subsection \<open>disconnect\<close>

lemma sock_shutdown_tolerated:
  "\<not> (case fst (sock_shutdown k) of Inl e \<Rightarrow> \<not> is_socket_error e | Inr u \<Rightarrow> False)"
  by (simp add: sock_shutdown_def is_socket_error_def)

lemma disconnect_client_result:
  "disconnect_client s c normal msg silent =
     (Inr (),
      s\<lparr>epoll := (epoll s)(c := None),
        net := (net s)(c := sock_close (snd (sock_shutdown (net s c)))),
        trace := trace s @ disconnect_events s normal msg silent c\<rparr>)"
  using sock_shutdown_tolerated [of "net s c"]
  by (cases "sock_shutdown (net s c)")
     (auto simp add: disconnect_client_def unregister_def log_def Let_def call_on_function_def
        disconnect_events_def fire_def fun_upd_idem split: option.split)

lemma disconnect_each_result:
  "fst (disconnect_each s cs normal msg silent) = Inr () \<and>
   trace (snd (disconnect_each s cs normal msg silent)) =
     trace s @ concat (map (disconnect_events s normal msg silent) cs) \<and>
   clients (snd (disconnect_each s cs normal msg silent)) = clients s \<and>
   run_in_subthread (snd (disconnect_each s cs normal msg silent)) = run_in_subthread s \<and>
   (\<forall>c. epoll (snd (disconnect_each s cs normal msg silent)) c =
      (if c \<in> set cs then None else epoll s c)) \<and>
   (\<forall>c. c \<in> set cs \<longrightarrow> is_closed (net (snd (disconnect_each s cs normal msg silent)) c)) \<and>
   (\<forall>c. c \<notin> set cs \<longrightarrow> net (snd (disconnect_each s cs normal msg silent)) c = net s c)"
proof (induction cs arbitrary: s)
  case Nil
  show ?case by simp
next
  case (Cons c cs)
  let ?s1 = "s\<lparr>epoll := (epoll s)(c := None),
        net := (net s)(c := sock_close (snd (sock_shutdown (net s c)))),
        trace := trace s @ disconnect_events s normal msg silent c\<rparr>"
  have ev: "disconnect_events ?s1 normal msg silent = disconnect_events s normal msg silent"
    by (rule ext) (simp add: disconnect_events_def fire_def)
  have step: "disconnect_each s (c # cs) normal msg silent = disconnect_each ?s1 cs normal msg silent"
    by (simp add: disconnect_client_result)
  have closed: "is_closed (net ?s1 c)" by (simp add: sock_close_def)
  show ?case
    unfolding step using Cons.IH [of ?s1] closed
    by (auto simp add: ev)
qed

lemma disconnect_one_result:
  "map_of (clients s) c \<noteq> None \<Longrightarrow>
      fst (disconnect s (One c) normal msg silent) = Inr () \<and>
      trace (snd (disconnect s (One c) normal msg silent)) =
        trace s @ disconnect_events s normal msg silent c @ [RegistryDel c] \<and>
      map_of (clients (snd (disconnect s (One c) normal msg silent))) c = None \<and>
      epoll (snd (disconnect s (One c) normal msg silent)) c = None \<and>
      is_closed (net (snd (disconnect s (One c) normal msg silent)) c)"
proof -
  assume reg: "map_of (clients s) c \<noteq> None"
  obtain s1 where s1: "disconnect_each s [c] normal msg silent = (Inr (), s1)"
    using disconnect_each_result [of s "[c]" normal msg silent] by (metis prod.collapse)
  have f1: "trace s1 = trace s @ disconnect_events s normal msg silent c"
    "clients s1 = clients s" "epoll s1 c = None" "is_closed (net s1 c)"
    using disconnect_each_result [of s "[c]" normal msg silent] s1 by simp_all
  show ?thesis
    unfolding disconnect_def target.case s1
    using f1 reg by (auto simp add: log_def delete_conv')
qed

lemma disconnect_all_result:
  "fst (disconnect s All normal msg silent) = Inr () \<and>
   trace (snd (disconnect s All normal msg silent)) =
     trace s @ concat (map (disconnect_events s normal msg silent) (map fst (clients s))) @
     [RegistryClear] \<and>
   clients (snd (disconnect s All normal msg silent)) = [] \<and>
   (\<forall>c \<in> fst ` set (clients s).
      epoll (snd (disconnect s All normal msg silent)) c = None \<and>
      is_closed (net (snd (disconnect s All normal msg silent)) c))"
proof -
  obtain s2 where s2: "disconnect_each s (map fst (clients s)) normal msg silent = (Inr (), s2)"
    using disconnect_each_result [of s "map fst (clients s)" normal msg silent]
    by (metis prod.collapse)
  have f2: "trace s2 =
      trace s @ concat (map (disconnect_events s normal msg silent) (map fst (clients s)))"
    "\<forall>c \<in> fst ` set (clients s). epoll s2 c = None \<and> is_closed (net s2 c)"
    using disconnect_each_result [of s "map fst (clients s)" normal msg silent] s2 by simp_all
  show ?thesis
    unfolding disconnect_def target.case s2
    using f2 by (simp add: log_def)
qed

text \<open>
  C8. For a connection \<open>c\<close> of the registry, \<open>disconnect\<close> returns normally and
  does, in this order: unregister \<open>c\<close> (silently), shut the socket down, close it
  (whether or not the shutdown failed on a broken peer), fire \<open>on_disconnect\<close> when
  \<open>normal\<close> or \<open>on_abnormal_disconnect\<close> with \<open>msg\<close> otherwise, unless \<open>silent\<close>,
  and at last delete \<open>c\<close> from the registry. For \<open>'all'\<close> it does the same for every
  key of the registry, in the order of the dictionary, and clears the registry after the
  last of them. Afterwards no target is in the registry or in the watch set, and its
  socket is closed.
\<close>

theorem disconnect_sequence:
  "(map_of (clients s) c \<noteq> None \<longrightarrow>
      fst (disconnect s (One c) normal msg silent) = Inr () \<and>
      trace (snd (disconnect s (One c) normal msg silent)) =
        trace s @ disconnect_events s normal msg silent c @ [RegistryDel c] \<and>
      map_of (clients (snd (disconnect s (One c) normal msg silent))) c = None \<and>
      epoll (snd (disconnect s (One c) normal msg silent)) c = None \<and>
      is_closed (net (snd (disconnect s (One c) normal msg silent)) c)) \<and>
   fst (disconnect s All normal msg silent) = Inr () \<and>
   trace (snd (disconnect s All normal msg silent)) =
     trace s @ concat (map (disconnect_events s normal msg silent) (map fst (clients s))) @
     [RegistryClear] \<and>
   clients (snd (disconnect s All normal msg silent)) = [] \<and>
   (\<forall>c \<in> fst ` set (clients s).
      epoll (snd (disconnect s All normal msg silent)) c = None \<and>
      is_closed (net (snd (disconnect s All normal msg silent)) c))"
  using disconnect_one_result [of s c normal msg silent]
    disconnect_all_result [of s normal msg silent]
  by blast

theorem disconnect_sequence_witness:
  "trace (snd (disconnect two_clients All False ''bye'' False)) =
     [EpollUnregister 1, SockShutdown 1, SockClose 1,
      Call on_abnormal_disconnect [Conn 1, Str ''bye''],
      EpollUnregister 2, SockShutdown 2, SockClose 2,
      Call on_abnormal_disconnect [Conn 2, Str ''bye''],
      RegistryClear] \<and>
   trace (snd (disconnect two_clients (One 2) True [] False)) =
     [EpollUnregister 2, SockShutdown 2, SockClose 2, Call on_disconnect [Conn 2], RegistryDel 2] \<and>
   fst (disconnect two_clients (One 2) True [] False) = Inr () \<and>
   map fst (clients (snd (disconnect two_clients (One 2) True [] False))) = [1] \<and>
   epoll (snd (disconnect two_clients All True [] True)) 1 = None"
  using disconnect_sequence [of two_clients 2 True "[]" False]
    disconnect_sequence [of two_clients 2 False "''bye''" False]
    disconnect_sequence [of two_clients 1 True "[]" True]
  by (simp add: two_clients_def Socket_init_def disconnect_events_def fire_def disconnect_def
      disconnect_client_def unregister_def log_def sock_shutdown_def sock_close_def sock0_def
      is_socket_error_def call_on_function_def Let_def)


subsection \<open>stop\<close>

lemma wait_events_stages:
  "wait_events ev stages = (ev Stage_recv \<and> ev Stage_accept \<and> ev Stage_handle_connects)"
  by (simp add: stages_def)

lemma silent_events:
  "disconnect_events s normal msg True c = [EpollUnregister c, SockShutdown c, SockClose c]"
  by (simp add: disconnect_events_def)

lemma disconnect_each_frame:
  "started (snd (disconnect_each s cs normal msg silent)) = started s \<and>
   stop_signal (snd (disconnect_each s cs normal msg silent)) = stop_signal s \<and>
   stop_events (snd (disconnect_each s cs normal msg silent)) = stop_events s \<and>
   threads (snd (disconnect_each s cs normal msg silent)) = threads s \<and>
   suspended (snd (disconnect_each s cs normal msg silent)) = suspended s \<and>
   accept_queue (snd (disconnect_each s cs normal msg silent)) = accept_queue s \<and>
   locks (snd (disconnect_each s cs normal msg silent)) = locks s \<and>
   server_socket (snd (disconnect_each s cs normal msg silent)) = server_socket s"
  by (induction cs arbitrary: s) (simp_all add: disconnect_client_result)

lemma disconnect_frame:
  "started (snd (disconnect s tg normal msg silent)) = started s \<and>
   stop_signal (snd (disconnect s tg normal msg silent)) = stop_signal s \<and>
   stop_events (snd (disconnect s tg normal msg silent)) = stop_events s \<and>
   threads (snd (disconnect s tg normal msg silent)) = threads s \<and>
   suspended (snd (disconnect s tg normal msg silent)) = suspended s \<and>
   accept_queue (snd (disconnect s tg normal msg silent)) = accept_queue s \<and>
   locks (snd (disconnect s tg normal msg silent)) = locks s \<and>
   run_in_subthread (snd (disconnect s tg normal msg silent)) = run_in_subthread s \<and>
   server_socket (snd (disconnect s tg normal msg silent)) = server_socket s"
  using disconnect_each_frame [of s "case tg of All \<Rightarrow> map fst (clients s) | One c \<Rightarrow> [c]" normal msg silent]
    disconnect_each_result [of s "case tg of All \<Rightarrow> map fst (clients s) | One c \<Rightarrow> [c]" normal msg silent]
  by (cases "disconnect_each s (case tg of All \<Rightarrow> map fst (clients s) | One c \<Rightarrow> [c]) normal msg silent")
     (auto simp add: disconnect_def log_def split: sum.split target.split option.split)

lemma stop_prefix:
  assumes st: "started s"
  shows "\<exists>s2. stop s reason = stop_wait s2 reason \<and>
    trace s2 = trace s @ [SetStopSignal] @
      concat (map (\<lambda>c. [EpollUnregister c, SockShutdown c, SockClose c]) (map fst (clients s))) @
      [RegistryClear] \<and>
    clients s2 = [] \<and> (\<forall>c \<in> fst ` set (clients s). epoll s2 c = None) \<and>
    stop_signal s2 \<and> run_in_subthread s2 = run_in_subthread s \<and>
    stop_events s2 = stop_events s \<and> server_socket s2 = server_socket s"
proof -
  let ?s1 = "log SetStopSignal (s\<lparr>stop_signal := True\<rparr>)"
  obtain s2 where s2: "disconnect ?s1 All True [] True = (Inr (), s2)"
    using disconnect_all_result [of ?s1 True "[]" True] by (metis prod.collapse)
  have ev: "disconnect_events ?s1 True [] True = (\<lambda>c. [EpollUnregister c, SockShutdown c, SockClose c])"
    by (rule ext) (simp add: silent_events)
  have tr: "trace s2 = trace s @ [SetStopSignal] @
        concat (map (\<lambda>c. [EpollUnregister c, SockShutdown c, SockClose c]) (map fst (clients s))) @
        [RegistryClear]"
    and cl: "clients s2 = []"
    and ep: "\<forall>c \<in> fst ` set (clients s). epoll s2 c = None"
    using disconnect_all_result [of ?s1 True "[]" True] s2
    by (simp_all add: ev) (simp_all add: log_def)
  have frame: "stop_signal s2" "run_in_subthread s2 = run_in_subthread s"
    "stop_events s2 = stop_events s" "server_socket s2 = server_socket s"
    using disconnect_frame [of ?s1 All True "[]" True] s2 by (simp_all add: log_def)
  have "stop s reason = stop_wait s2 reason" using st s2 by (simp add: stop_def)
  then show ?thesis using tr cl ep frame by blast
qed

lemma stop_wait_open:
  "ev Stage_recv \<and> ev Stage_accept \<and> ev Stage_handle_connects \<Longrightarrow>
   stop_events s = ev \<Longrightarrow> \<not> is_closed (server_socket s) \<Longrightarrow>
   fst (stop_wait s reason) = Returns () \<and>
   trace (snd (stop_wait s reason)) =
     trace s @ [ServerShutdown, ServerClose, fire s on_stop [Str reason]] \<and>
   is_closed (server_socket (snd (stop_wait s reason))) \<and>
   stop_signal (snd (stop_wait s reason)) = stop_signal s \<and>
   clients (snd (stop_wait s reason)) = clients s \<and>
   epoll (snd (stop_wait s reason)) = epoll s"
  by (simp add: stop_wait_def wait_events_stages listener_shutdown_def sock_close_def
      log_def call_on_function_def fire_def)

lemma stop_wait_closed:
  "stop_events s Stage_recv \<and> stop_events s Stage_accept \<and> stop_events s Stage_handle_connects \<Longrightarrow>
   is_closed (server_socket s) \<Longrightarrow>
   fst (stop_wait s reason) = Raises (socket_error EBADF ''Bad file descriptor'') \<and>
   trace (snd (stop_wait s reason)) = trace s @ [ServerShutdown] \<and>
   stop_signal (snd (stop_wait s reason)) = stop_signal s \<and>
   clients (snd (stop_wait s reason)) = clients s \<and>
   epoll (snd (stop_wait s reason)) = epoll s"
  by (simp add: stop_wait_def wait_events_stages listener_shutdown_def log_def)

lemma stop_wait_blocks:
  "\<not> (stop_events s Stage_recv \<and> stop_events s Stage_accept \<and> stop_events s Stage_handle_connects) \<Longrightarrow>
   stop_wait s reason = (Blocks, s)"
  unfolding stop_wait_def wait_events_stages by (simp only: if_False)

text \<open>
  C7 as the claim states it fails on a server that was stopped before. Nothing marks a
  server as stopped: a second \<open>stop\<close> passes the guard, sets the flag, finds no
  client and the three events set, and then fails with \<open>OSError\<close> at the shutdown of
  the listening socket, which the first \<open>stop\<close> closed; \<open>on_stop\<close> does not fire
  for it. Here the first \<open>stop\<close> waits, each stage ends its loop, and the first
  \<open>stop\<close> finishes before the second is called.
\<close>

theorem second_stop_raises:
  "started (run (\<lambda>m. Inr (Str m)) Socket_init
     [Start, Stop ''a'', Poll [], Accept None, Admit, Resume]) \<and>
   fst (stop (run (\<lambda>m. Inr (Str m)) Socket_init
     [Start, Stop ''a'', Poll [], Accept None, Admit, Resume]) ''b'') =
     Raises (socket_error EBADF ''Bad file descriptor'') \<and>
   trace (snd (stop (run (\<lambda>m. Inr (Str m)) Socket_init
     [Start, Stop ''a'', Poll [], Accept None, Admit, Resume]) ''b'')) =
     [ServerBind, ServerListen, ServeThreadsStart, Call on_start [],
      SetStopSignal, RegistryClear, ServerShutdown, ServerClose, Call on_stop [Str ''a''],
      SetStopSignal, RegistryClear, ServerShutdown]"
  by (simp add: run_def step_def Socket_init_def start_def log_def call_on_function_def
      stop_def stop_wait_def stages_def disconnect_def listener_shutdown_def sock_close_def
      sock0_def serve_recv_def serve_accept_def serve_handle_connects_def stage_finally_def
      Let_def)

text \<open>
  C7, amended. \<open>stop\<close> raises \<open>OSError\<close> on a server that was not started and changes
  nothing. On a started server it sets the stop flag, disconnects every connection
  silently and clears the registry, and then waits: while one of the three stage events
  is not set the caller is blocked, with the listening socket as it was and \<open>on_stop\<close>
  not fired. Once all three are set and the listening socket is still open, it shuts
  down and closes the listening socket and fires \<open>on_stop\<close> with the reason, in this
  order. When the listening socket is closed already, the shutdown raises \<open>OSError\<close>
  and \<open>on_stop\<close> does not fire.
\<close>

theorem stop_sequence:
  "(\<not> started s \<longrightarrow>
      stop s reason =
        (Raises (OSError ''Can't stop server because it has not been started yet''), s)) \<and>
   (started s \<and> stop_events s Stage_recv \<and> stop_events s Stage_accept \<and>
      stop_events s Stage_handle_connects \<and> \<not> is_closed (server_socket s) \<longrightarrow>
      fst (stop s reason) = Returns () \<and>
      trace (snd (stop s reason)) =
        trace s @ [SetStopSignal] @
        concat (map (\<lambda>c. [EpollUnregister c, SockShutdown c, SockClose c]) (map fst (clients s))) @
        [RegistryClear, ServerShutdown, ServerClose, fire s on_stop [Str reason]] \<and>
      is_closed (server_socket (snd (stop s reason)))) \<and>
   (started s \<and> stop_events s Stage_recv \<and> stop_events s Stage_accept \<and>
      stop_events s Stage_handle_connects \<and> is_closed (server_socket s) \<longrightarrow>
      fst (stop s reason) = Raises (socket_error EBADF ''Bad file descriptor'') \<and>
      trace (snd (stop s reason)) =
        trace s @ [SetStopSignal] @
        concat (map (\<lambda>c. [EpollUnregister c, SockShutdown c, SockClose c]) (map fst (clients s))) @
        [RegistryClear, ServerShutdown]) \<and>
   (started s \<and> \<not> (stop_events s Stage_recv \<and> stop_events s Stage_accept \<and>
      stop_events s Stage_handle_connects) \<longrightarrow>
      fst (stop s reason) = Blocks \<and>
      trace (snd (stop s reason)) =
        trace s @ [SetStopSignal] @
        concat (map (\<lambda>c. [EpollUnregister c, SockShutdown c, SockClose c]) (map fst (clients s))) @
        [RegistryClear] \<and>
      server_socket (snd (stop s reason)) = server_socket s \<and>
      (\<forall>ev. ev Stage_recv \<and> ev Stage_accept \<and> ev Stage_handle_connects \<and>
            \<not> is_closed (server_socket s) \<longrightarrow>
         fst (stop_wait ((snd (stop s reason))\<lparr>stop_events := ev\<rparr>) reason) = Returns () \<and>
         trace (snd (stop_wait ((snd (stop s reason))\<lparr>stop_events := ev\<rparr>) reason)) =
           trace (snd (stop s reason)) @ [ServerShutdown, ServerClose, fire s on_stop [Str reason]])) \<and>
   (started s \<longrightarrow>
      stop_signal (snd (stop s reason)) \<and> clients (snd (stop s reason)) = [] \<and>
      (\<forall>c \<in> fst ` set (clients s). epoll (snd (stop s reason)) c = None))"
proof -
  have a: "\<not> started s \<Longrightarrow> stop s reason =
        (Raises (OSError ''Can't stop server because it has not been started yet''), s)"
    by (simp add: stop_def)
  {
    assume st: "started s"
    obtain s2 where s2: "stop s reason = stop_wait s2 reason"
      and tr: "trace s2 = trace s @ [SetStopSignal] @
        concat (map (\<lambda>c. [EpollUnregister c, SockShutdown c, SockClose c]) (map fst (clients s))) @
        [RegistryClear]"
      and cl: "clients s2 = []" and ep: "\<forall>c \<in> fst ` set (clients s). epoll s2 c = None"
      and sg: "stop_signal s2" and pol: "run_in_subthread s2 = run_in_subthread s"
      and evs: "stop_events s2 = stop_events s" and ls: "server_socket s2 = server_socket s"
      using stop_prefix [OF st, of reason] by blast
    have fire2: "fire s2 on_stop [Str reason] = fire s on_stop [Str reason]"
      using pol by (simp add: fire_def)
    let ?all = "stop_events s Stage_recv \<and> stop_events s Stage_accept \<and>
      stop_events s Stage_handle_connects"
    have b: "?all \<and> \<not> is_closed (server_socket s) \<Longrightarrow>
      fst (stop s reason) = Returns () \<and>
      trace (snd (stop s reason)) =
        trace s @ [SetStopSignal] @
        concat (map (\<lambda>c. [EpollUnregister c, SockShutdown c, SockClose c]) (map fst (clients s))) @
        [RegistryClear, ServerShutdown, ServerClose, fire s on_stop [Str reason]] \<and>
      is_closed (server_socket (snd (stop s reason)))"
      unfolding s2
      using stop_wait_open [of "stop_events s" s2 reason] evs ls tr fire2 by simp
    have c: "?all \<and> is_closed (server_socket s) \<Longrightarrow>
      fst (stop s reason) = Raises (socket_error EBADF ''Bad file descriptor'') \<and>
      trace (snd (stop s reason)) =
        trace s @ [SetStopSignal] @
        concat (map (\<lambda>c. [EpollUnregister c, SockShutdown c, SockClose c]) (map fst (clients s))) @
        [RegistryClear, ServerShutdown]"
      unfolding s2
      using stop_wait_closed [of s2 reason] evs ls tr by simp
    have blk: "\<not> ?all \<Longrightarrow> stop s reason = (Blocks, s2)"
      unfolding s2 using stop_wait_blocks [of s2 reason] evs by simp
    have d: "\<not> ?all \<Longrightarrow>
      fst (stop s reason) = Blocks \<and>
      trace (snd (stop s reason)) =
        trace s @ [SetStopSignal] @
        concat (map (\<lambda>c. [EpollUnregister c, SockShutdown c, SockClose c]) (map fst (clients s))) @
        [RegistryClear] \<and>
      server_socket (snd (stop s reason)) = server_socket s \<and>
      (\<forall>ev. ev Stage_recv \<and> ev Stage_accept \<and> ev Stage_handle_connects \<and>
            \<not> is_closed (server_socket s) \<longrightarrow>
         fst (stop_wait ((snd (stop s reason))\<lparr>stop_events := ev\<rparr>) reason) = Returns () \<and>
         trace (snd (stop_wait ((snd (stop s reason))\<lparr>stop_events := ev\<rparr>) reason)) =
           trace (snd (stop s reason)) @ [ServerShutdown, ServerClose, fire s on_stop [Str reason]])"
    proof -
      assume na: "\<not> ?all"
      have r: "\<And>ev. ev Stage_recv \<and> ev Stage_accept \<and> ev Stage_handle_connects \<and>
            \<not> is_closed (server_socket s) \<Longrightarrow>
         fst (stop_wait (s2\<lparr>stop_events := ev\<rparr>) reason) = Returns () \<and>
         trace (snd (stop_wait (s2\<lparr>stop_events := ev\<rparr>) reason)) =
           trace s2 @ [ServerShutdown, ServerClose, fire s on_stop [Str reason]]"
      proof -
        fix ev
        assume h: "ev Stage_recv \<and> ev Stage_accept \<and> ev Stage_handle_connects \<and>
            \<not> is_closed (server_socket s)"
        have "fire (s2\<lparr>stop_events := ev\<rparr>) on_stop [Str reason] = fire s on_stop [Str reason]"
          using pol by (simp add: fire_def)
        then show "fst (stop_wait (s2\<lparr>stop_events := ev\<rparr>) reason) = Returns () \<and>
         trace (snd (stop_wait (s2\<lparr>stop_events := ev\<rparr>) reason)) =
           trace s2 @ [ServerShutdown, ServerClose, fire s on_stop [Str reason]]"
          using stop_wait_open [of ev "s2\<lparr>stop_events := ev\<rparr>" reason] h ls by simp
      qed
      show ?thesis
        unfolding blk [OF na] using tr ls r by simp
    qed
    have e: "stop_signal (snd (stop s reason)) \<and> clients (snd (stop s reason)) = [] \<and>
      (\<forall>c \<in> fst ` set (clients s). epoll (snd (stop s reason)) c = None)"
    proof (cases ?all)
      case False
      then show ?thesis unfolding blk [OF False] using sg cl ep by simp
    next
      case True
      show ?thesis
      proof (cases "is_closed (server_socket s)")
        case True
        show ?thesis
          unfolding s2
          using stop_wait_closed [of s2 reason] \<open>?all\<close> True evs ls sg cl ep by simp
      next
        case False
        show ?thesis
          unfolding s2
          using stop_wait_open [of "stop_events s" s2 reason] \<open>?all\<close> False evs ls sg cl ep
          by simp
      qed
    qed
    note b c d e
  }
  with a show ?thesis by blast
qed

theorem stop_sequence_witness:
  "stop Socket_init ''bye'' =
     (Raises (OSError ''Can't stop server because it has not been started yet''), Socket_init) \<and>
   fst (stop two_clients ''bye'') = Blocks \<and>
   trace (snd (stop two_clients ''bye'')) =
     [SetStopSignal, EpollUnregister 1, SockShutdown 1, SockClose 1,
      EpollUnregister 2, SockShutdown 2, SockClose 2, RegistryClear] \<and>
   fst (stop (two_clients\<lparr>stop_events := (\<lambda>e. True)\<rparr>) ''bye'') = Returns () \<and>
   trace (snd (stop (two_clients\<lparr>stop_events := (\<lambda>e. True)\<rparr>) ''bye'')) =
     [SetStopSignal, EpollUnregister 1, SockShutdown 1, SockClose 1,
      EpollUnregister 2, SockShutdown 2, SockClose 2, RegistryClear,
      ServerShutdown, ServerClose, Call on_stop [Str ''bye'']] \<and>
   fst (stop (snd (stop (two_clients\<lparr>stop_events := (\<lambda>e. True)\<rparr>) ''bye'')) ''again'') =
     Raises (socket_error EBADF ''Bad file descriptor'')"
  using stop_sequence [of Socket_init "''bye''"] stop_sequence [of two_clients "''bye''"]
    stop_sequence [of "two_clients\<lparr>stop_events := (\<lambda>e. True)\<rparr>" "''bye''"]
    stop_sequence [of "snd (stop (two_clients\<lparr>stop_events := (\<lambda>e. True)\<rparr>) ''bye'')" "''again''"]
  by (simp add: two_clients_def Socket_init_def fire_def sock0_def stop_def stop_wait_def
      stages_def disconnect_def disconnect_client_def unregister_def log_def sock_shutdown_def
      sock_close_def is_socket_error_def call_on_function_def listener_shutdown_def Let_def)

subsection \<open>send\_raw\<close>

lemma sock_send_ok:
  "sock_send k d = (Inr n, k') \<Longrightarrow>
   n \<le> length d \<and> wire k' = wire k @ take n d \<and> is_closed k' = is_closed k"
  by (auto simp add: sock_send_def split: if_splits list.splits tx.splits)

lemma send_loop_wire:
  "t \<le> length data \<Longrightarrow> fst (send_loop k data t) = Inr () \<Longrightarrow>
   wire (snd (send_loop k data t)) = wire k @ drop t data"
proof (induction k data t rule: send_loop.induct)
  case (1 conn data total_sent)
  show ?case
  proof (cases "total_sent < length data")
    case False
    with "1.prems" show ?thesis by (simp add: send_loop.simps [of conn])
  next
    case True
    obtain r conn' where ss: "sock_send conn (drop total_sent data) = (r, conn')"
      by (cases "sock_send conn (drop total_sent data)")
    show ?thesis
    proof (cases r)
      case (Inl e)
      with True ss "1.prems" show ?thesis by (simp add: send_loop.simps [of conn])
    next
      case (Inr sent)
      with ss have ss': "sock_send conn (drop total_sent data) = (Inr sent, conn')" by simp
      then have ok: "sent \<le> length data - total_sent"
        "wire conn' = wire conn @ take sent (drop total_sent data)"
        using sock_send_ok [of conn "drop total_sent data" sent conn'] by simp_all
      show ?thesis
      proof (cases "sent = 0")
        case True
        with \<open>total_sent < length data\<close> ss Inr "1.prems" show ?thesis
          by (simp add: send_loop.simps [of conn])
      next
        case False
        have eq: "send_loop conn data total_sent = send_loop conn' data (total_sent + sent)"
          using True ss Inr False by (simp add: send_loop.simps [of conn])
        have "wire (snd (send_loop conn' data (total_sent + sent))) =
            wire conn' @ drop (total_sent + sent) data"
          using "1.IH" [OF True ss' [symmetric] refl False] ok "1.prems" eq True Inr
          by simp
        moreover have "take sent (drop total_sent data) @ drop (total_sent + sent) data =
            drop total_sent data"
          by (metis add.commute append_take_drop_id drop_drop)
        ultimately show ?thesis using eq ok by simp
      qed
    qed
  qed
qed

lemma send_loop_accepts:
  "\<not> is_closed k \<Longrightarrow> list_all accepts (tx_script k) \<Longrightarrow> fst (send_loop k data t) = Inr ()"
proof (induction k data t rule: send_loop.induct)
  case (1 conn data total_sent)
  show ?case
  proof (cases "total_sent < length data")
    case False
    then show ?thesis by (simp add: send_loop.simps [of conn])
  next
    case True
    show ?thesis
    proof (cases "tx_script conn")
      case Nil
      let ?k = "conn\<lparr>wire := wire conn @ drop total_sent data\<rparr>"
      have ss: "sock_send conn (drop total_sent data) = (Inr (length data - total_sent), ?k)"
        using Nil "1.prems" by (simp add: sock_send_def)
      have nz: "length data - total_sent \<noteq> 0" using True by simp
      have "fst (send_loop ?k data (total_sent + (length data - total_sent))) = Inr ()"
        using "1.IH" [OF True ss [symmetric] refl nz] "1.prems" Nil by simp
      then show ?thesis using True ss nz by (simp add: send_loop.simps [of conn])
    next
      case (Cons x rest)
      with "1.prems" obtain n where x: "x = TxSent n" "0 < n"
        by (cases x) (auto simp add: accepts_def)
      let ?m = "min n (length data - total_sent)"
      let ?k = "conn\<lparr>tx_script := rest, wire := wire conn @ take ?m (drop total_sent data)\<rparr>"
      have ss: "sock_send conn (drop total_sent data) = (Inr ?m, ?k)"
        using Cons x "1.prems" by (simp add: sock_send_def)
      have nz: "?m \<noteq> 0" using True x by simp
      have "fst (send_loop ?k data (total_sent + ?m)) = Inr ()"
        using "1.IH" [OF True ss [symmetric] refl nz] "1.prems" Cons by simp
      then show ?thesis using True ss nz by (simp add: send_loop.simps [of conn])
    qed
  qed
qed

lemma send_loop_zero:
  "\<not> is_closed k \<Longrightarrow> tx_script k = map TxSent ns @ TxSent 0 # rest \<Longrightarrow>
   \<forall>n \<in> set ns. 0 < n \<Longrightarrow> t + sum_list ns < length data \<Longrightarrow>
   fst (send_loop k data t) = Inl (ClientAbnormalDisconnect ''Sent empty array'')"
proof (induction ns arbitrary: k t)
  case Nil
  then show ?case by (simp add: send_loop.simps [of k] sock_send_def)
next
  case (Cons n ns)
  let ?k = "k\<lparr>tx_script := map TxSent ns @ TxSent 0 # rest,
      wire := wire k @ take n (drop t data)\<rparr>"
  have lt: "t < length data" "0 < n" "n \<le> length data - t" using Cons.prems by simp_all
  have ss: "sock_send k (drop t data) = (Inr n, ?k)"
    using Cons.prems lt by (simp add: sock_send_def min_def)
  have "fst (send_loop ?k data (t + n)) = Inl (ClientAbnormalDisconnect ''Sent empty array'')"
    using Cons.IH [of ?k "t + n"] Cons.prems by (simp add: add.assoc)
  then show ?case using lt ss by (simp add: send_loop.simps [of k])
qed

text \<open>
  C6 as the claim states it fails: a send of zero bytes makes \<open>send_raw\<close> raise
  \<open>ClientAbnormalDisconnect\<close> to its caller; no hook fires, the trace holds the lock
  being taken and released and nothing else.
\<close>

theorem send_raw_zero_bytes_raises:
  "fst (send_raw (with_tx one_client 1 [TxSent 0]) 1 ''hi'' True) =
     Raises (ClientAbnormalDisconnect ''Sent empty array'') \<and>
   trace (snd (send_raw (with_tx one_client 1 [TxSent 0]) 1 ''hi'' True)) =
     [LockAcquire ClientInfo_send_lock, LockRelease ClientInfo_send_lock]"
  by (simp add: send_raw_def with_tx_def one_client_def Socket_init_def sock0_def send_lock_def
      log_def send_loop.simps [of _ "''hi''" 0] sock_send_def)

lemma send_raw_unfold:
  assumes reg: "map_of (clients s) conn = Some client"
    and free: "\<not> (block \<and> locks s (send_lock client))"
  shows "send_raw s conn data block =
    ((case fst (send_loop (net s conn) data 0) of Inl e \<Rightarrow> Raises e | Inr u \<Rightarrow> Returns ()),
     s\<lparr>net := (net s)(conn := snd (send_loop (net s conn) data 0)),
       trace := trace s @
         (if block then [LockAcquire (send_lock client), LockRelease (send_lock client)] else []),
       locks := locks s\<rparr>)"
proof (cases block)
  case False
  then show ?thesis
    using reg by (simp add: send_raw_def split: prod.split)
next
  case True
  with free have "(locks s)(send_lock client := False) = locks s"
    by (auto simp add: fun_eq_iff)
  with True free show ?thesis
    using reg by (simp add: send_raw_def log_def split: prod.split)
qed


text \<open>
  C6, amended. For a connection of the registry, \<open>send_raw\<close> with \<open>block\<close> waits
  while the send lock is held. Otherwise it returns or raises, and when it returns all
  bytes of \<open>data\<close> were handed to the kernel, in order; it does return when every
  underlying send takes at least one byte. A send that takes no byte, after any number
  of partial sends, raises \<open>ClientAbnormalDisconnect('Sent empty array')\<close> to the
  caller. On every path no hook fires, and with \<open>block\<close> the lock is taken and
  released again.
\<close>

theorem send_raw_behaviour:
  "map_of (clients s) conn = Some client \<Longrightarrow>
   (block \<and> locks s (send_lock client) \<longrightarrow> send_raw s conn data block = (Blocks, s)) \<and>
   (\<not> (block \<and> locks s (send_lock client)) \<longrightarrow>
      fst (send_raw s conn data block) \<noteq> Blocks \<and>
      trace (snd (send_raw s conn data block)) =
        trace s @ (if block then [LockAcquire (send_lock client), LockRelease (send_lock client)]
                   else []) \<and>
      locks (snd (send_raw s conn data block)) = locks s \<and>
      (fst (send_raw s conn data block) = Returns () \<longrightarrow>
         wire (net (snd (send_raw s conn data block)) conn) = wire (net s conn) @ data) \<and>
      (\<not> is_closed (net s conn) \<and> list_all accepts (tx_script (net s conn)) \<longrightarrow>
         fst (send_raw s conn data block) = Returns ()) \<and>
      (\<forall>ns rest. \<not> is_closed (net s conn) \<and>
         tx_script (net s conn) = map TxSent ns @ TxSent 0 # rest \<and>
         (\<forall>n \<in> set ns. 0 < n) \<and> sum_list ns < length data \<longrightarrow>
         fst (send_raw s conn data block) =
           Raises (ClientAbnormalDisconnect ''Sent empty array'')))"
proof -
  assume reg: "map_of (clients s) conn = Some client"
  let ?L = "send_loop (net s conn) data 0"
  have blocked: "block \<and> locks s (send_lock client) \<Longrightarrow> send_raw s conn data block = (Blocks, s)"
    using reg by (simp add: send_raw_def)
  {
    assume free: "\<not> (block \<and> locks s (send_lock client))"
    note u = send_raw_unfold [OF reg free, of data]
    have c1: "fst (send_raw s conn data block) \<noteq> Blocks"
      by (simp add: u split: sum.split)
    have c2: "trace (snd (send_raw s conn data block)) =
        trace s @ (if block then [LockAcquire (send_lock client), LockRelease (send_lock client)]
                   else [])"
      by (simp add: u)
    have c3: "locks (snd (send_raw s conn data block)) = locks s"
      by (simp add: u)
    have c4: "fst (send_raw s conn data block) = Returns () \<Longrightarrow>
         wire (net (snd (send_raw s conn data block)) conn) = wire (net s conn) @ data"
    proof -
      assume "fst (send_raw s conn data block) = Returns ()"
      then have "fst ?L = Inr ()" by (simp add: u split: sum.splits)
      then have "wire (snd ?L) = wire (net s conn) @ data"
        using send_loop_wire [of 0 data "net s conn"] by simp
      then show ?thesis by (simp add: u)
    qed
    have c5: "\<not> is_closed (net s conn) \<Longrightarrow> list_all accepts (tx_script (net s conn)) \<Longrightarrow>
         fst (send_raw s conn data block) = Returns ()"
      using send_loop_accepts [of "net s conn" data 0] by (simp add: u)
    have c6: "\<And>ns rest. \<not> is_closed (net s conn) \<Longrightarrow>
         tx_script (net s conn) = map TxSent ns @ TxSent 0 # rest \<Longrightarrow>
         (\<forall>n \<in> set ns. 0 < n) \<Longrightarrow> sum_list ns < length data \<Longrightarrow>
         fst (send_raw s conn data block) =
           Raises (ClientAbnormalDisconnect ''Sent empty array'')"
    proof -
      fix ns rest
      assume "\<not> is_closed (net s conn)"
        "tx_script (net s conn) = map TxSent ns @ TxSent 0 # rest"
        "\<forall>n \<in> set ns. 0 < n" "sum_list ns < length data"
      then have "fst ?L = Inl (ClientAbnormalDisconnect ''Sent empty array'')"
        using send_loop_zero [of "net s conn" ns rest 0 data] by simp
      then show "fst (send_raw s conn data block) =
           Raises (ClientAbnormalDisconnect ''Sent empty array'')"
        by (simp add: u)
    qed
    note c1 c2 c3 c4 c5 c6
  }
  then show ?thesis using blocked by blast
qed

theorem send_raw_behaviour_witness:
  "fst (send_raw (with_tx one_client 1 [TxSent 1, TxSent 5]) 1 ''hello'' True) = Returns () \<and>
   wire (net (snd (send_raw (with_tx one_client 1 [TxSent 1, TxSent 5]) 1 ''hello'' True)) 1) =
     ''hello'' \<and>
   \<not> locks (snd (send_raw (with_tx one_client 1 [TxSent 1, TxSent 5]) 1 ''hello'' True))
     ClientInfo_send_lock \<and>
   fst (send_raw (with_tx one_client 1 [TxSent 2, TxSent 0]) 1 ''hello'' True) =
     Raises (ClientAbnormalDisconnect ''Sent empty array'') \<and>
   \<not> locks (snd (send_raw (with_tx one_client 1 [TxSent 2, TxSent 0]) 1 ''hello'' True))
     ClientInfo_send_lock \<and>
   fst (send_raw ((with_tx one_client 1 [])\<lparr>locks := (\<lambda>l. True)\<rparr>) 1 ''hello'' True) = Blocks"
proof -
  let ?c = "\<lparr>address = ''peer'', callback_function = Socket_recv, callback_args = [Conn 1]\<rparr>"
  have r1: "map_of (clients (with_tx one_client 1 [TxSent 1, TxSent 5])) 1 = Some ?c"
    and r2: "map_of (clients (with_tx one_client 1 [TxSent 2, TxSent 0])) 1 = Some ?c"
    and r3: "map_of (clients ((with_tx one_client 1 [])\<lparr>locks := (\<lambda>l. True)\<rparr>)) 1 = Some ?c"
    by (simp_all add: with_tx_def one_client_def)
  show ?thesis
    using send_raw_behaviour [OF r1, of True "''hello''"]
      send_raw_behaviour [OF r2, of True "''hello''"]
      send_raw_behaviour [OF r3, of True "''hello''"]
    by (simp add: with_tx_def one_client_def Socket_init_def sock0_def send_lock_def
        send_raw_def log_def send_loop.simps sock_send_def)
qed

subsection \<open>Runs: what stays as it is\<close>

lemma calm_refl: "calm s s"
  by (simp add: calm_def)

lemma calm_trans: "calm s s1 \<Longrightarrow> calm s1 s2 \<Longrightarrow> calm s s2"
  unfolding calm_def by (metis option.distinct(1))

lemma recv_fired_append: "recv_fired (tr @ tr') = recv_fired tr \<union> recv_fired tr'"
  by (auto simp add: recv_fired_def)

lemma recv_fired_Cons:
  "recv_fired (ev # tr) = (case ev of
       Call h args \<Rightarrow> (case args of Conn c # r \<Rightarrow> if h = on_recv then {c} else {} | _ \<Rightarrow> {})
     | Spawn h args \<Rightarrow> (case args of Conn c # r \<Rightarrow> if h = on_recv then {c} else {} | _ \<Rightarrow> {})
     | _ \<Rightarrow> {}) \<union> recv_fired tr"
  by (auto simp add: recv_fired_def split: event.split list.split pyval.split)

lemma recv_fired_Nil: "recv_fired [] = {}"
  by (simp add: recv_fired_def)

lemma recv_fired_disconnect_events:
  "recv_fired (disconnect_events s normal msg silent c) = {}"
  by (auto simp add: recv_fired_def disconnect_events_def fire_def)

lemma recv_fired_concat_disconnect:
  "recv_fired (concat (map (disconnect_events s normal msg silent) cs)) = {}"
  by (induction cs) (simp_all add: recv_fired_Nil recv_fired_append recv_fired_disconnect_events)

lemma calm_disconnect: "calm s (snd (disconnect s tg normal msg silent))"
proof -
  let ?cs = "case tg of All \<Rightarrow> map fst (clients s) | One c \<Rightarrow> [c]"
  obtain s1 where s1: "disconnect_each s ?cs normal msg silent = (Inr (), s1)"
    using disconnect_each_result [of s ?cs normal msg silent] by (metis prod.collapse)
  have f: "trace s1 = trace s @ concat (map (disconnect_events s normal msg silent) ?cs)"
    "clients s1 = clients s" "threads s1 = threads s"
    "\<forall>c. epoll s1 c = (if c \<in> set ?cs then None else epoll s c)"
    using disconnect_each_result [of s ?cs normal msg silent]
      disconnect_each_frame [of s ?cs normal msg silent] s1 by simp_all
  have c1: "calm s s1"
    using f by (simp add: calm_def recv_fired_append recv_fired_concat_disconnect)
  have c2: "calm s1 (snd (disconnect s tg normal msg silent))"
    unfolding disconnect_def s1
    by (auto simp add: calm_def log_def recv_fired_append recv_fired_Cons recv_fired_Nil delete_conv'
        split: target.split option.split)
  show ?thesis using c1 c2 by (rule calm_trans)
qed

lemma calm_stop_wait: "calm s (snd (stop_wait s reason))"
  by (simp add: stop_wait_def calm_def call_on_function_def log_def recv_fired_append
      recv_fired_Cons recv_fired_Nil split: prod.split sum.split)

lemma calm_stop: "calm s (snd (stop s reason))"
proof (cases "started s")
  case False
  then show ?thesis by (simp add: stop_def calm_refl)
next
  case True
  let ?s1 = "log SetStopSignal (s\<lparr>stop_signal := True\<rparr>)"
  obtain s2 where s2: "disconnect ?s1 All True [] True = (Inr (), s2)"
    using disconnect_all_result [of ?s1 True "[]" True] by (metis prod.collapse)
  have a: "calm s ?s1"
    by (simp add: calm_def log_def recv_fired_append recv_fired_Cons recv_fired_Nil)
  have b: "calm ?s1 s2" using calm_disconnect [of ?s1 All True "[]" True] s2 by simp
  have c: "calm s2 (snd (stop_wait s2 reason))" by (rule calm_stop_wait)
  have "snd (stop s reason) = snd (stop_wait s2 reason)"
    using True s2 by (simp add: stop_def)
  then show ?thesis using a b c calm_trans by metis
qed

lemma calm_suspend: "calm s s' \<Longrightarrow> calm s (s'\<lparr>suspended := x\<rparr>)"
  by (simp add: calm_def)

lemma calm_stage_finally: "calm s (stage_finally s st reason)"
proof -
  let ?s1 = "s\<lparr>stop_events := (stop_events s)(st := True)\<rparr>"
  have a: "calm s ?s1" by (simp add: calm_def)
  have b: "calm ?s1 (snd (stop ?s1 reason))" by (rule calm_stop)
  show ?thesis
    using a calm_trans [OF a b] calm_suspend [OF calm_trans [OF a b]]
    by (cases "stop ?s1 reason")
       (auto simp add: stage_finally_def Let_def split: outcome.split)
qed

lemma calm_start: "calm s (snd (start s))"
  by (simp add: start_def calm_def call_on_function_def log_def recv_fired_append
      recv_fired_Cons recv_fired_Nil)

lemma calm_unregister: "calm s (snd (unregister s c silent))"
  by (simp add: unregister_def calm_def log_def Let_def recv_fired_append recv_fired_Cons
      recv_fired_Nil split: option.split)

lemma calm_send_raw: "calm s (snd (send_raw s c data block))"
proof (cases "map_of (clients s) c")
  case None
  then show ?thesis by (simp add: send_raw_def calm_refl)
next
  case (Some client)
  show ?thesis
  proof (cases "block \<and> locks s (send_lock client)")
    case True
    with Some show ?thesis by (simp add: send_raw_def calm_refl)
  next
    case False
    show ?thesis
      by (simp add: send_raw_unfold [OF Some False] calm_def recv_fired_append recv_fired_Cons
          recv_fired_Nil)
  qed
qed

lemma calm_serve_accept: "calm s (serve_accept s accepted)"
  using calm_stage_finally [of s Stage_accept]
  by (auto simp add: serve_accept_def calm_def split: option.split)

lemma calm_serve_handle_connects: "calm s (serve_handle_connects s)"
  using calm_stage_finally [of s Stage_handle_connects]
  by (auto simp add: serve_handle_connects_def calm_def call_on_function_def log_def Let_def
      recv_fired_append recv_fired_Cons recv_fired_Nil update_conv' split: list.split)

lemma calm_step:
  "(case a of Register c silent \<Rightarrow> False | Poll ready \<Rightarrow> False | ThreadRun i \<Rightarrow> False
    | _ \<Rightarrow> True) \<Longrightarrow> calm s (step getitem s a)"
proof (cases a)
  case (Stop reason)
  show ?thesis
    using calm_stop [of s reason] calm_suspend [OF calm_stop [of s reason]]
    by (cases "stop s reason") (auto simp add: step_def Stop split: outcome.split)
next
  case Resume
  show ?thesis
  proof (cases "suspended s")
    case Nil
    then show ?thesis by (simp add: step_def Resume calm_refl)
  next
    case (Cons reason rest)
    show ?thesis
      using calm_stop_wait [of s reason] calm_suspend [OF calm_stop_wait [of s reason]] calm_refl
      by (cases "stop_wait s reason") (auto simp add: step_def Resume Cons split: outcome.split)
  qed
next
  case (PeerSends c x)
  then show ?thesis by (simp add: step_def calm_def)
qed (simp_all add: step_def calm_start calm_unregister calm_disconnect calm_send_raw
    calm_serve_accept calm_serve_handle_connects)

lemma calm_wf: "wf_data s \<Longrightarrow> calm s s' \<Longrightarrow> wf_data s'"
  unfolding wf_data_def calm_def by (metis option.distinct(1))

lemma calm_one_shot: "one_shot s \<Longrightarrow> calm s s' \<Longrightarrow> one_shot s'"
  unfolding one_shot_def calm_def dispatching_def by (metis)

lemma calm_reg_inv: "reg_inv R s \<Longrightarrow> calm s s' \<Longrightarrow> reg_inv R s'"
  unfolding reg_inv_def calm_def by (metis)

lemma recv_frame:
  "threads (snd (recv getitem s c n)) = threads s \<and>
   epoll (snd (recv getitem s c n)) = epoll s \<and>
   clients (snd (recv getitem s c n)) = clients s \<and>
   recv_fired (trace (snd (recv getitem s c n))) \<subseteq> recv_fired (trace s) \<union> {c}"
  by (auto simp add: recv_def call_on_function_def log_def Let_def recv_fired_append
      recv_fired_Cons recv_fired_Nil split: prod.split sum.split exn.split)

lemma apply_callback_frame:
  "threads (snd (apply_callback getitem s f args)) = threads s \<and>
   epoll (snd (apply_callback getitem s f args)) = epoll s \<and>
   clients (snd (apply_callback getitem s f args)) = clients s \<and>
   recv_fired (trace (snd (apply_callback getitem s f args))) \<subseteq>
     recv_fired (trace s) \<union> {c. args = [Conn c]}"
  using recv_frame [of getitem s _ 4096]
  by (auto simp add: apply_callback_def split: callback.split list.split pyval.split)

lemma dispatch_effect:
  assumes k: "epoll s c = Some d"
  shows "epoll (snd (dispatch getitem s (c, d))) = (epoll s)(c := None) \<and>
    clients (snd (dispatch getitem s (c, d))) = clients s \<and>
    ((threads (snd (dispatch getitem s (c, d))) = threads s @ [d] \<and>
      recv_fired (trace (snd (dispatch getitem s (c, d)))) = recv_fired (trace s)) \<or>
     (threads (snd (dispatch getitem s (c, d))) = threads s \<and>
      recv_fired (trace (snd (dispatch getitem s (c, d)))) \<subseteq>
        recv_fired (trace s) \<union> {c'. snd d = [Conn c']}))"
proof -
  let ?s1 = "(log (EpollUnregister c) s)\<lparr>epoll := (epoll s)(c := None)\<rparr>"
  have u: "unregister s c False = (Inr (), ?s1)"
    using k by (simp add: unregister_def Let_def)
  show ?thesis
  proof (cases "run_in_subthread s client_callback")
    case True
    then show ?thesis
      using u by (simp add: dispatch_def log_def recv_fired_append recv_fired_Cons recv_fired_Nil)
  next
    case False
    let ?s2 = "log (DispatchInline (fst d) (snd d)) ?s1"
    have "snd (dispatch getitem s (c, d)) = snd (apply_callback getitem ?s2 (fst d) (snd d))"
      using u False by (simp add: dispatch_def log_def split: prod.split sum.split)
    moreover have "recv_fired (trace ?s2) = recv_fired (trace s)"
      by (simp add: log_def recv_fired_append recv_fired_Cons recv_fired_Nil)
    ultimately show ?thesis
      using apply_callback_frame [of getitem ?s2 "fst d" "snd d"]
      by (simp add: log_def)
  qed
qed

lemma dispatching_append:
  "length (filter (\<lambda>t. snd t = [Conn c]) (ts @ [d])) =
   length (filter (\<lambda>t. snd t = [Conn c]) ts) + (if snd d = [Conn c] then 1 else 0)"
  by simp

lemma dispatch_one_shot:
  assumes k: "epoll s c = Some d" and wf: "wf_data s" and os: "one_shot s"
  shows "one_shot (snd (dispatch getitem s (c, d)))"
proof -
  have d: "d = (Socket_recv, [Conn c])" using wf k unfolding wf_data_def by blast
  have idle: "dispatching s c = 0" using os k by (simp add: one_shot_def)
  show ?thesis
    using dispatch_effect [OF k, of getitem] os d idle
    unfolding one_shot_def dispatching_def
    by (auto simp add: dispatching_append)
qed

lemma dispatch_wf:
  assumes k: "epoll s c = Some d" and wf: "wf_data s"
  shows "wf_data (snd (dispatch getitem s (c, d)))"
  using dispatch_effect [OF k, of getitem] wf unfolding wf_data_def by auto

lemma dispatch_reg_inv:
  assumes k: "epoll s c = Some d" and wf: "wf_data s" and ri: "reg_inv R s"
  shows "reg_inv R (snd (dispatch getitem s (c, d)))"
proof -
  have d: "d = (Socket_recv, [Conn c])" using wf k unfolding wf_data_def by blast
  have cR: "c \<in> R" using ri k by (simp add: reg_inv_def)
  show ?thesis
    using dispatch_effect [OF k, of getitem] ri d cR
    unfolding reg_inv_def by auto
qed

lemma select_keys:
  "distinct (map fst (select s ready)) \<and> (\<forall>k \<in> set (select s ready). epoll s (fst k) = Some (snd k))"
proof -
  have "\<And>xs. distinct xs \<Longrightarrow>
      distinct (map fst (concat (map (\<lambda>c. case epoll s c of None \<Rightarrow> [] | Some d \<Rightarrow> [(c, d)]) xs))) \<and>
      fst ` set (concat (map (\<lambda>c. case epoll s c of None \<Rightarrow> [] | Some d \<Rightarrow> [(c, d)]) xs)) \<subseteq> set xs \<and>
      (\<forall>k \<in> set (concat (map (\<lambda>c. case epoll s c of None \<Rightarrow> [] | Some d \<Rightarrow> [(c, d)]) xs)).
         epoll s (fst k) = Some (snd k))"
  proof -
    fix xs :: "conn list"
    show "distinct xs \<Longrightarrow>
      distinct (map fst (concat (map (\<lambda>c. case epoll s c of None \<Rightarrow> [] | Some d \<Rightarrow> [(c, d)]) xs))) \<and>
      fst ` set (concat (map (\<lambda>c. case epoll s c of None \<Rightarrow> [] | Some d \<Rightarrow> [(c, d)]) xs)) \<subseteq> set xs \<and>
      (\<forall>k \<in> set (concat (map (\<lambda>c. case epoll s c of None \<Rightarrow> [] | Some d \<Rightarrow> [(c, d)]) xs)).
         epoll s (fst k) = Some (snd k))"
      by (induction xs) (auto split: option.splits)
  qed
  from this [of "remdups ready"] show ?thesis by (simp add: select_def)
qed

lemma dispatch_events_inv:
  "distinct (map fst keys) \<Longrightarrow> \<forall>k \<in> set keys. epoll s (fst k) = Some (snd k) \<Longrightarrow>
   wf_data s \<Longrightarrow>
   wf_data (snd (dispatch_events getitem s keys)) \<and>
   (one_shot s \<longrightarrow> one_shot (snd (dispatch_events getitem s keys))) \<and>
   (reg_inv R s \<longrightarrow> reg_inv R (snd (dispatch_events getitem s keys)))"
proof (induction keys arbitrary: s)
  case Nil
  then show ?case by simp
next
  case (Cons key keys)
  obtain c d where key: "key = (c, d)" by (cases key)
  have k: "epoll s c = Some d" using Cons.prems key by simp
  let ?s1 = "snd (dispatch getitem s (c, d))"
  have wf1: "wf_data ?s1" using dispatch_wf [OF k] Cons.prems by simp
  have os1: "one_shot s \<Longrightarrow> one_shot ?s1" using dispatch_one_shot [OF k] Cons.prems by simp
  have ri1: "reg_inv R s \<Longrightarrow> reg_inv R ?s1" using dispatch_reg_inv [OF k] Cons.prems by simp
  have ep: "epoll ?s1 = (epoll s)(c := None)" using dispatch_effect [OF k] by simp
  have rest: "\<forall>k \<in> set keys. epoll ?s1 (fst k) = Some (snd k)"
    using Cons.prems key ep by auto
  have dist: "distinct (map fst keys)" using Cons.prems by simp
  note IH = Cons.IH [OF dist rest wf1]
  show ?case
  proof (cases "fst (dispatch getitem s (c, d))")
    case (Inl e)
    then have "snd (dispatch_events getitem s (key # keys)) = ?s1"
      by (cases "dispatch getitem s (c, d)") (simp add: key)
    then show ?thesis using wf1 os1 ri1 by simp
  next
    case (Inr u)
    then have "snd (dispatch_events getitem s (key # keys)) = snd (dispatch_events getitem ?s1 keys)"
      by (cases "dispatch getitem s (c, d)") (simp add: key)
    then show ?thesis using IH os1 ri1 by simp
  qed
qed

lemma serve_recv_inv:
  assumes wf: "wf_data s"
  shows "wf_data (serve_recv getitem s ready) \<and>
   (one_shot s \<longrightarrow> one_shot (serve_recv getitem s ready)) \<and>
   (reg_inv R s \<longrightarrow> reg_inv R (serve_recv getitem s ready))"
proof -
  let ?s1 = "snd (dispatch_events getitem s (select s ready))"
  have inv1: "wf_data ?s1 \<and> (one_shot s \<longrightarrow> one_shot ?s1) \<and> (reg_inv R s \<longrightarrow> reg_inv R ?s1)"
    using dispatch_events_inv [of "select s ready" s getitem R] select_keys [of s ready] wf
    by blast
  have fin: "\<And>x. wf_data x \<and> (one_shot s \<longrightarrow> one_shot x) \<and> (reg_inv R s \<longrightarrow> reg_inv R x) \<Longrightarrow>
      wf_data (stage_finally x Stage_recv ''Error in _recv'') \<and>
      (one_shot s \<longrightarrow> one_shot (stage_finally x Stage_recv ''Error in _recv'')) \<and>
      (reg_inv R s \<longrightarrow> reg_inv R (stage_finally x Stage_recv ''Error in _recv''))"
    using calm_stage_finally calm_wf calm_one_shot calm_reg_inv by blast
  have s0: "wf_data s \<and> (one_shot s \<longrightarrow> one_shot s) \<and> (reg_inv R s \<longrightarrow> reg_inv R s)"
    using wf by simp
  show ?thesis
    using inv1 fin [OF inv1] fin [OF s0] s0
    by (cases "dispatch_events getitem s (select s ready)")
       (auto simp add: serve_recv_def split: sum.split)
qed

lemma register_inv:
  assumes wf: "wf_data s"
  shows "wf_data (snd (register s c silent)) \<and>
   (one_shot s \<and> dispatching s c = 0 \<longrightarrow> one_shot (snd (register s c silent))) \<and>
   (reg_inv R s \<longrightarrow> reg_inv (insert c R) (snd (register s c silent)))"
  using wf
  unfolding wf_data_def one_shot_def reg_inv_def dispatching_def
  by (auto simp add: register_def log_def Let_def recv_fired_append recv_fired_Cons recv_fired_Nil
      split: option.split)

lemma filter_remove_le:
  "length (filter P (take i ts @ drop (Suc i) ts)) \<le> length (filter P ts)"
proof -
  have "filter P ts = filter P (take i ts) @ filter P (drop i ts)"
    by (metis append_take_drop_id filter_append)
  then have a: "length (filter P ts) =
      length (filter P (take i ts)) + length (filter P (drop i ts))"
    by (metis length_append)
  have "length (filter P (drop (Suc i) ts)) \<le> length (filter P (drop i ts))"
  proof (cases "i < length ts")
    case True
    then have "drop i ts = ts ! i # drop (Suc i) ts" by (simp add: Cons_nth_drop_Suc)
    then show ?thesis by simp
  next
    case False
    then show ?thesis by simp
  qed
  with a show ?thesis by simp
qed

lemma thread_run_inv:
  assumes wf: "wf_data s"
  shows "wf_data (step getitem s (ThreadRun i)) \<and>
   (one_shot s \<longrightarrow> one_shot (step getitem s (ThreadRun i))) \<and>
   (reg_inv R s \<longrightarrow> reg_inv R (step getitem s (ThreadRun i)))"
proof (cases "i < length (threads s)")
  case False
  then show ?thesis using wf by (simp add: step_def)
next
  case True
  let ?s1 = "s\<lparr>threads := take i (threads s) @ drop (Suc i) (threads s)\<rparr>"
  let ?t = "threads s ! i"
  let ?s2 = "snd (apply_callback getitem ?s1 (fst ?t) (snd ?t))"
  have st: "step getitem s (ThreadRun i) = ?s2" using True by (simp add: step_def)
  note fr = apply_callback_frame [of getitem ?s1 "fst ?t" "snd ?t"]
  have tin: "?t \<in> set (threads s)" using True by simp
  have sub: "set (threads ?s2) \<subseteq> set (threads s)"
    using fr by (auto dest: in_set_takeD in_set_dropD)
  have a: "wf_data ?s2" using wf fr unfolding wf_data_def by simp
  have le: "\<And>c. dispatching ?s2 c \<le> dispatching s c"
    using fr filter_remove_le [of _ i "threads s"] by (simp add: dispatching_def)
  have ep: "epoll ?s2 = epoll s" using fr by simp
  have b: "one_shot s \<Longrightarrow> one_shot ?s2"
  proof -
    assume os: "one_shot s"
    show "one_shot ?s2"
      unfolding one_shot_def
    proof (intro allI conjI impI)
      fix c
      show "dispatching ?s2 c \<le> 1"
        using le [of c] os unfolding one_shot_def by (meson le_trans)
      assume "epoll ?s2 c \<noteq> None"
      then have "dispatching s c = 0" using os ep unfolding one_shot_def by simp
      then show "dispatching ?s2 c = 0" using le [of c] by simp
    qed
  qed
  have c: "reg_inv R s \<Longrightarrow> reg_inv R ?s2"
    using fr tin sub unfolding reg_inv_def by auto
  show ?thesis using a b c st by simp
qed

lemma reg_inv_mono: "reg_inv R s \<Longrightarrow> R \<subseteq> R' \<Longrightarrow> reg_inv R' s"
  unfolding reg_inv_def by blast

lemma registered_Cons: "registered (a # acts) = registered [a] \<union> registered acts"
  by (auto simp add: registered_def)

lemma registered_single:
  "registered [a] = (case a of Register c silent \<Rightarrow> {c} | _ \<Rightarrow> {})"
  by (auto simp add: registered_def split: action.split)

lemma step_inv:
  assumes wf: "wf_data s"
  shows "wf_data (step getitem s a) \<and>
    (one_shot s \<and> (case a of Register c silent \<Rightarrow> dispatching s c = 0 | _ \<Rightarrow> True) \<longrightarrow>
       one_shot (step getitem s a)) \<and>
    (reg_inv R s \<longrightarrow> reg_inv (R \<union> registered [a]) (step getitem s a))"
proof (cases "case a of Register c silent \<Rightarrow> False | Poll ready \<Rightarrow> False | ThreadRun i \<Rightarrow> False
    | _ \<Rightarrow> True")
  case True
  then have c: "calm s (step getitem s a)" by (rule calm_step)
  have r: "registered [a] = {}" using True by (cases a) (simp_all add: registered_single)
  show ?thesis
    using calm_wf [OF wf c] calm_one_shot [OF _ c] calm_reg_inv [OF _ c] r by auto
next
  case False
  then show ?thesis
  proof (cases a)
    case (Register c silent)
    then show ?thesis
      using register_inv [OF wf, of c silent R]
      by (simp add: step_def registered_single)
  next
    case (Poll ready)
    then show ?thesis
      using serve_recv_inv [OF wf, of getitem ready R]
      by (simp add: step_def registered_single)
  next
    case (ThreadRun i)
    then show ?thesis
      using thread_run_inv [OF wf, of getitem i R]
      by (simp add: registered_single)
  qed simp_all
qed

lemma run_Cons: "run getitem s (a # acts) = run getitem (step getitem s a) acts"
  by (simp add: run_def)

lemma run_inv:
  "wf_data s \<Longrightarrow>
   wf_data (run getitem s acts) \<and>
   (one_shot s \<and> rearm_when_idle getitem s acts \<longrightarrow> one_shot (run getitem s acts)) \<and>
   (reg_inv R s \<longrightarrow> reg_inv (R \<union> registered acts) (run getitem s acts))"
proof (induction acts arbitrary: s R)
  case Nil
  then show ?case by (simp add: run_def registered_def)
next
  case (Cons a acts)
  note st = step_inv [OF Cons.prems, of getitem a R]
  have wf1: "wf_data (step getitem s a)" using st by simp
  note IH = Cons.IH [OF wf1, of "R \<union> registered [a]"]
  have un: "R \<union> registered (a # acts) = R \<union> registered [a] \<union> registered acts"
    using registered_Cons [of a acts] by auto
  show ?case
    unfolding run_Cons un using st IH by auto
qed

lemma init_inv: "wf_data Socket_init \<and> one_shot Socket_init \<and> reg_inv {} Socket_init"
  by (simp add: wf_data_def one_shot_def reg_inv_def dispatching_def Socket_init_def
      recv_fired_Nil)

lemma recv_trace_extends: "\<exists>rest. trace (snd (recv getitem s c n)) = trace s @ rest"
  by (auto simp add: recv_def call_on_function_def log_def Let_def
      split: prod.split sum.split exn.split)

lemma apply_callback_trace_extends:
  "\<exists>rest. trace (snd (apply_callback getitem s f args)) = trace s @ rest"
  using recv_trace_extends [of getitem s _ 4096]
  by (auto simp add: apply_callback_def split: callback.split list.split pyval.split)

lemmas eval_defs = run_def step_def Socket_init_def start_def log_def call_on_function_def
      serve_accept_def serve_handle_connects_def register_def unregister_def serve_recv_def
      select_def dispatch_def dispatching_def Let_def apply_callback_def recv_def recv_raw_def
      sock_recv_def sock0_def EAGAIN_def EWOULDBLOCK_def fire_def


lemma init_policy_inv:
  "wf_data (Socket_init\<lparr>run_in_subthread := p\<rparr>) \<and>
   one_shot (Socket_init\<lparr>run_in_subthread := p\<rparr>) \<and>
   reg_inv {} (Socket_init\<lparr>run_in_subthread := p\<rparr>)"
  by (simp add: wf_data_def one_shot_def reg_inv_def dispatching_def Socket_init_def
      recv_fired_Nil)

lemma loop_events_append: "loop_events (tr @ tr') = loop_events tr @ loop_events tr'"
  by (simp add: loop_events_def)

lemma recv_loop_frame:
  "run_in_subthread (snd (recv getitem s c n)) = run_in_subthread s \<and>
   loop_events (trace (snd (recv getitem s c n))) = loop_events (trace s)"
  by (auto simp add: recv_def call_on_function_def log_def Let_def loop_events_def
      is_loop_event_def split: prod.split sum.split exn.split)

lemma apply_callback_loop_frame:
  "run_in_subthread (snd (apply_callback getitem s f args)) = run_in_subthread s \<and>
   loop_events (trace (snd (apply_callback getitem s f args))) = loop_events (trace s)"
  using recv_loop_frame [of getitem s _ 4096]
  by (auto simp add: apply_callback_def split: callback.split list.split pyval.split)

lemma dispatch_trace:
  assumes k: "epoll s c = Some d"
  shows "run_in_subthread (snd (dispatch getitem s (c, d))) = run_in_subthread s \<and>
    loop_events (trace (snd (dispatch getitem s (c, d)))) =
      loop_events (trace s) @ [EpollUnregister c, dispatch_mark s (c, d)] \<and>
    threads (snd (dispatch getitem s (c, d))) =
      threads s @ (if run_in_subthread s client_callback then [d] else []) \<and>
    epoll (snd (dispatch getitem s (c, d))) = (epoll s)(c := None) \<and>
    (run_in_subthread s client_callback \<longrightarrow> fst (dispatch getitem s (c, d)) = Inr ())"
proof -
  let ?s1 = "(log (EpollUnregister c) s)\<lparr>epoll := (epoll s)(c := None)\<rparr>"
  have u: "unregister s c False = (Inr (), ?s1)"
    using k by (simp add: unregister_def Let_def)
  show ?thesis
  proof (cases "run_in_subthread s client_callback")
    case True
    then show ?thesis
      using u by (simp add: dispatch_def log_def loop_events_def is_loop_event_def
          dispatch_mark_def)
  next
    case False
    let ?s2 = "log (DispatchInline (fst d) (snd d)) ?s1"
    have eq: "snd (dispatch getitem s (c, d)) = snd (apply_callback getitem ?s2 (fst d) (snd d))"
      using u False by (simp add: dispatch_def log_def split: prod.split sum.split)
    have l2: "loop_events (trace ?s2) =
        loop_events (trace s) @ [EpollUnregister c, DispatchInline (fst d) (snd d)]"
      by (simp add: log_def loop_events_def is_loop_event_def)
    show ?thesis
      unfolding eq
      using apply_callback_loop_frame [of getitem ?s2 "fst d" "snd d"]
        apply_callback_frame [of getitem ?s2 "fst d" "snd d"] l2 False
      by (simp add: log_def dispatch_mark_def)
  qed
qed

lemma dispatch_events_trace:
  "distinct (map fst keys) \<Longrightarrow> \<forall>k \<in> set keys. epoll s (fst k) = Some (snd k) \<Longrightarrow>
   run_in_subthread (snd (dispatch_events getitem s keys)) = run_in_subthread s \<and>
   (run_in_subthread s client_callback \<longrightarrow> fst (dispatch_events getitem s keys) = Inr ()) \<and>
   (fst (dispatch_events getitem s keys) = Inr () \<longrightarrow>
      loop_events (trace (snd (dispatch_events getitem s keys))) =
        loop_events (trace s) @
        concat (map (\<lambda>k. [EpollUnregister (fst k), dispatch_mark s k]) keys) \<and>
      threads (snd (dispatch_events getitem s keys)) =
        threads s @ (if run_in_subthread s client_callback then map snd keys else []) \<and>
      (\<forall>c. epoll (snd (dispatch_events getitem s keys)) c =
         (if c \<in> fst ` set keys then None else epoll s c))) \<and>
   (\<forall>e. fst (dispatch_events getitem s keys) = Inl e \<longrightarrow>
      (\<exists>n < length keys.
         loop_events (trace (snd (dispatch_events getitem s keys))) =
           loop_events (trace s) @
           concat (map (\<lambda>k. [EpollUnregister (fst k), dispatch_mark s k]) (take (Suc n) keys))))"
proof (induction keys arbitrary: s)
  case Nil
  then show ?case by simp
next
  case (Cons key keys)
  obtain c d where key: "key = (c, d)" by (cases key)
  have k: "epoll s c = Some d" using Cons.prems key by simp
  let ?s1 = "snd (dispatch getitem s (c, d))"
  note dt = dispatch_trace [OF k, of getitem]
  have pol: "run_in_subthread ?s1 = run_in_subthread s" using dt by simp
  have mark: "\<And>k. dispatch_mark ?s1 k = dispatch_mark s k"
    using pol by (simp add: dispatch_mark_def)
  have rest: "\<forall>k \<in> set keys. epoll ?s1 (fst k) = Some (snd k)"
    using Cons.prems key dt by auto
  have dist: "distinct (map fst keys)" using Cons.prems by simp
  note IH = Cons.IH [OF dist rest]
  show ?case
  proof (cases "fst (dispatch getitem s (c, d))")
    case (Inl e)
    then have eq: "dispatch_events getitem s (key # keys) = (Inl e, ?s1)"
      by (cases "dispatch getitem s (c, d)") (simp add: key)
    have "0 < length (key # keys)" by simp
    moreover have "loop_events (trace ?s1) = loop_events (trace s) @
        concat (map (\<lambda>k. [EpollUnregister (fst k), dispatch_mark s k]) (take (Suc 0) (key # keys)))"
      using dt by (simp add: key)
    ultimately have ex: "\<exists>n < length (key # keys). loop_events (trace ?s1) = loop_events (trace s) @
        concat (map (\<lambda>k. [EpollUnregister (fst k), dispatch_mark s k]) (take (Suc n) (key # keys)))"
      by blast
    show ?thesis
      unfolding eq using pol dt Inl ex by auto
  next
    case (Inr u)
    then have eq: "dispatch_events getitem s (key # keys) = dispatch_events getitem ?s1 keys"
      by (cases "dispatch getitem s (c, d)") (simp add: key)
    have a: "run_in_subthread (snd (dispatch_events getitem ?s1 keys)) = run_in_subthread s"
      using IH pol by simp
    have b: "run_in_subthread s client_callback \<Longrightarrow>
        fst (dispatch_events getitem ?s1 keys) = Inr ()"
      using IH pol by simp
    have c: "fst (dispatch_events getitem ?s1 keys) = Inr () \<Longrightarrow>
      loop_events (trace (snd (dispatch_events getitem ?s1 keys))) =
        loop_events (trace s) @
        concat (map (\<lambda>k. [EpollUnregister (fst k), dispatch_mark s k]) (key # keys)) \<and>
      threads (snd (dispatch_events getitem ?s1 keys)) =
        threads s @ (if run_in_subthread s client_callback then map snd (key # keys) else []) \<and>
      (\<forall>c. epoll (snd (dispatch_events getitem ?s1 keys)) c =
         (if c \<in> fst ` set (key # keys) then None else epoll s c))"
      using IH dt pol mark by (simp add: key)
    have d: "\<And>e. fst (dispatch_events getitem ?s1 keys) = Inl e \<Longrightarrow>
      (\<exists>n < length (key # keys).
         loop_events (trace (snd (dispatch_events getitem ?s1 keys))) =
           loop_events (trace s) @
           concat (map (\<lambda>k. [EpollUnregister (fst k), dispatch_mark s k])
             (take (Suc n) (key # keys))))"
    proof -
      fix e
      assume "fst (dispatch_events getitem ?s1 keys) = Inl e"
      then obtain n where n: "n < length keys"
        "loop_events (trace (snd (dispatch_events getitem ?s1 keys))) =
           loop_events (trace ?s1) @
           concat (map (\<lambda>k. [EpollUnregister (fst k), dispatch_mark ?s1 k]) (take (Suc n) keys))"
        using IH by blast
      have "Suc n < length (key # keys)" using n by simp
      moreover have "loop_events (trace (snd (dispatch_events getitem ?s1 keys))) =
           loop_events (trace s) @
           concat (map (\<lambda>k. [EpollUnregister (fst k), dispatch_mark s k])
             (take (Suc (Suc n)) (key # keys)))"
        using n dt mark by (simp add: key)
      ultimately show "\<exists>n < length (key # keys).
         loop_events (trace (snd (dispatch_events getitem ?s1 keys))) =
           loop_events (trace s) @
           concat (map (\<lambda>k. [EpollUnregister (fst k), dispatch_mark s k])
             (take (Suc n) (key # keys)))"
        by blast
    qed
    show ?thesis unfolding eq using a b c d by blast
  qed
qed

lemma select_exact:
  "map fst (select s ready) = filter (\<lambda>c. epoll s c \<noteq> None) (remdups ready)"
proof -
  have "\<And>xs. map fst (concat (map (\<lambda>c. case epoll s c of None \<Rightarrow> [] | Some d \<Rightarrow> [(c, d)]) xs)) =
      filter (\<lambda>c. epoll s c \<noteq> None) xs"
  proof -
    fix xs :: "conn list"
    show "map fst (concat (map (\<lambda>c. case epoll s c of None \<Rightarrow> [] | Some d \<Rightarrow> [(c, d)]) xs)) =
      filter (\<lambda>c. epoll s c \<noteq> None) xs"
      by (induction xs) (auto split: option.splits)
  qed
  then show ?thesis by (simp add: select_def)
qed


subsection \<open>The dispatch loop\<close>

text \<open>
  C3 as the claim states it fails. Nothing keeps the application from calling
  \<open>register\<close> on a connection whose receive dispatch is still in flight: the
  connection is then in the watch set while its dispatch runs, and the next
  notification starts a second dispatch beside the first. Here connection 1 is
  admitted, armed and dispatched on a thread, armed again before that thread has
  run, and dispatched again.
\<close>

theorem two_dispatches_in_flight:
  "dispatching (run (\<lambda>m. Inr (Str m)) Socket_init
     [Start, Accept (Some (1, ''peer'')), Admit, Register 1 False, PeerSends 1 (RxData ''a''),
      Poll [1], Register 1 False, PeerSends 1 (RxData ''b''), Poll [1]]) 1 = 2 \<and>
   epoll (run (\<lambda>m. Inr (Str m)) Socket_init
     [Start, Accept (Some (1, ''peer'')), Admit, Register 1 False, PeerSends 1 (RxData ''a''),
      Poll [1], Register 1 False]) 1 = Some (Socket_recv, [Conn 1]) \<and>
   dispatching (run (\<lambda>m. Inr (Str m)) Socket_init
     [Start, Accept (Some (1, ''peer'')), Admit, Register 1 False, PeerSends 1 (RxData ''a''),
      Poll [1], Register 1 False]) 1 = 1"
  by (simp add: run_def step_def Socket_init_def start_def log_def call_on_function_def
      serve_accept_def serve_handle_connects_def register_def unregister_def serve_recv_def
      select_def dispatch_def dispatching_def Let_def)

text \<open>
  C3, amended. \<open>select\<close> reports exactly the ready connections that are in the
  watch set, each once and with the callback registered for it. For such a key the
  loop unregisters the connection first and dispatches the callback registered for it
  only then: on a new thread when the policy slot \<open>client_callback\<close> is set, inline
  otherwise; after the dispatch the connection is not in the watch set. One turn of
  the loop does this for every key that \<open>select\<close> reports, in the order of the
  report: the events the loop writes in the turn are, key by key, the removal from
  the watch set followed by the start of the callback, one thread per key is started
  under the thread policy and none under the inline policy, and afterwards no ready
  connection is in the watch set while every other connection is watched as before.
  Under the thread policy the turn always comes to its end; under the inline policy
  a callback that raises ends it after the key it was dispatched for, and the keys
  before it were handled in the same way. In every run from a fresh server, whatever
  its dispatch policy, in which \<open>register\<close> is called on a connection only while
  no receive dispatch of it is in flight, at most one receive dispatch per connection
  is in flight at any time, and a connection in the watch set has none.
\<close>

theorem unregister_before_dispatch:
  "map fst (select s ready) = filter (\<lambda>c. epoll s c \<noteq> None) (remdups ready) \<and>
   (\<forall>k \<in> set (select s ready). epoll s (fst k) = Some (snd k)) \<and>
   (epoll s c = Some d \<and> run_in_subthread s client_callback \<longrightarrow>
      fst (dispatch getitem s (c, d)) = Inr () \<and>
      trace (snd (dispatch getitem s (c, d))) =
        trace s @ [EpollUnregister c, DispatchThread (fst d) (snd d)] \<and>
      threads (snd (dispatch getitem s (c, d))) = threads s @ [d] \<and>
      epoll (snd (dispatch getitem s (c, d))) = (epoll s)(c := None)) \<and>
   (epoll s c = Some d \<and> \<not> run_in_subthread s client_callback \<longrightarrow>
      (\<exists>rest. trace (snd (dispatch getitem s (c, d))) =
         trace s @ [EpollUnregister c, DispatchInline (fst d) (snd d)] @ rest) \<and>
      threads (snd (dispatch getitem s (c, d))) = threads s \<and>
      epoll (snd (dispatch getitem s (c, d))) = (epoll s)(c := None)) \<and>
   (run_in_subthread s client_callback \<longrightarrow>
      fst (dispatch_events getitem s (select s ready)) = Inr ()) \<and>
   (fst (dispatch_events getitem s (select s ready)) = Inr () \<longrightarrow>
      loop_events (trace (snd (dispatch_events getitem s (select s ready)))) =
        loop_events (trace s) @
        concat (map (\<lambda>k. [EpollUnregister (fst k), dispatch_mark s k]) (select s ready)) \<and>
      threads (snd (dispatch_events getitem s (select s ready))) =
        threads s @ (if run_in_subthread s client_callback then map snd (select s ready) else []) \<and>
      (\<forall>c. epoll (snd (dispatch_events getitem s (select s ready))) c =
         (if c \<in> set ready then None else epoll s c))) \<and>
   (\<forall>e. fst (dispatch_events getitem s (select s ready)) = Inl e \<longrightarrow>
      (\<exists>n < length (select s ready).
         loop_events (trace (snd (dispatch_events getitem s (select s ready)))) =
           loop_events (trace s) @
           concat (map (\<lambda>k. [EpollUnregister (fst k), dispatch_mark s k])
             (take (Suc n) (select s ready))))) \<and>
   (started s \<and> \<not> stop_events s Stage_recv \<and> \<not> stop_signal s \<and>
    fst (dispatch_events getitem s (select s ready)) = Inr () \<longrightarrow>
      serve_recv getitem s ready = snd (dispatch_events getitem s (select s ready))) \<and>
   (rearm_when_idle getitem (Socket_init\<lparr>run_in_subthread := p\<rparr>) acts \<longrightarrow>
      (\<forall>c. dispatching (run getitem (Socket_init\<lparr>run_in_subthread := p\<rparr>) acts) c \<le> 1 \<and>
           (epoll (run getitem (Socket_init\<lparr>run_in_subthread := p\<rparr>) acts) c \<noteq> None \<longrightarrow>
              dispatching (run getitem (Socket_init\<lparr>run_in_subthread := p\<rparr>) acts) c = 0)))"
proof -
  have a1: "map fst (select s ready) = filter (\<lambda>c. epoll s c \<noteq> None) (remdups ready)"
    by (rule select_exact)
  have a2: "\<forall>k \<in> set (select s ready). epoll s (fst k) = Some (snd k)"
    using select_keys [of s ready] by simp
  have b: "epoll s c = Some d \<and> run_in_subthread s client_callback \<longrightarrow>
      fst (dispatch getitem s (c, d)) = Inr () \<and>
      trace (snd (dispatch getitem s (c, d))) =
        trace s @ [EpollUnregister c, DispatchThread (fst d) (snd d)] \<and>
      threads (snd (dispatch getitem s (c, d))) = threads s @ [d] \<and>
      epoll (snd (dispatch getitem s (c, d))) = (epoll s)(c := None)"
    by (simp add: dispatch_def unregister_def log_def Let_def)
  have c: "epoll s c = Some d \<and> \<not> run_in_subthread s client_callback \<longrightarrow>
      (\<exists>rest. trace (snd (dispatch getitem s (c, d))) =
         trace s @ [EpollUnregister c, DispatchInline (fst d) (snd d)] @ rest) \<and>
      threads (snd (dispatch getitem s (c, d))) = threads s \<and>
      epoll (snd (dispatch getitem s (c, d))) = (epoll s)(c := None)"
  proof (intro impI)
    assume h: "epoll s c = Some d \<and> \<not> run_in_subthread s client_callback"
    let ?s2 = "log (DispatchInline (fst d) (snd d))
        ((log (EpollUnregister c) s)\<lparr>epoll := (epoll s)(c := None)\<rparr>)"
    have eq: "snd (dispatch getitem s (c, d)) = snd (apply_callback getitem ?s2 (fst d) (snd d))"
      using h by (simp add: dispatch_def unregister_def Let_def log_def split: prod.split sum.split)
    obtain rest where r: "trace (snd (apply_callback getitem ?s2 (fst d) (snd d))) = trace ?s2 @ rest"
      using apply_callback_trace_extends by blast
    have t2: "trace ?s2 = trace s @ [EpollUnregister c, DispatchInline (fst d) (snd d)]"
      by (simp add: log_def)
    show "(\<exists>rest. trace (snd (dispatch getitem s (c, d))) =
         trace s @ [EpollUnregister c, DispatchInline (fst d) (snd d)] @ rest) \<and>
      threads (snd (dispatch getitem s (c, d))) = threads s \<and>
      epoll (snd (dispatch getitem s (c, d))) = (epoll s)(c := None)"
      using eq r t2 apply_callback_frame [of getitem ?s2 "fst d" "snd d"]
      by (simp add: log_def)
  qed
  have dist: "distinct (map fst (select s ready))" using select_keys [of s ready] by simp
  note lp = dispatch_events_trace [OF dist a2, of getitem]
  have inset: "\<And>c. (c \<in> fst ` set (select s ready)) = (c \<in> set ready \<and> epoll s c \<noteq> None)"
  proof -
    fix c
    have "fst ` set (select s ready) = set (map fst (select s ready))" by simp
    also have "\<dots> = {c \<in> set ready. epoll s c \<noteq> None}" unfolding a1 by auto
    finally show "(c \<in> fst ` set (select s ready)) = (c \<in> set ready \<and> epoll s c \<noteq> None)"
      by blast
  qed
  have l1: "run_in_subthread s client_callback \<longrightarrow>
      fst (dispatch_events getitem s (select s ready)) = Inr ()"
    using lp by blast
  have l2: "fst (dispatch_events getitem s (select s ready)) = Inr () \<longrightarrow>
      loop_events (trace (snd (dispatch_events getitem s (select s ready)))) =
        loop_events (trace s) @
        concat (map (\<lambda>k. [EpollUnregister (fst k), dispatch_mark s k]) (select s ready)) \<and>
      threads (snd (dispatch_events getitem s (select s ready))) =
        threads s @ (if run_in_subthread s client_callback then map snd (select s ready) else []) \<and>
      (\<forall>c. epoll (snd (dispatch_events getitem s (select s ready))) c =
         (if c \<in> set ready then None else epoll s c))"
  proof (intro impI)
    assume ok: "fst (dispatch_events getitem s (select s ready)) = Inr ()"
    have e: "\<forall>c. epoll (snd (dispatch_events getitem s (select s ready))) c =
         (if c \<in> fst ` set (select s ready) then None else epoll s c)"
      using lp ok by blast
    have "\<forall>c. epoll (snd (dispatch_events getitem s (select s ready))) c =
         (if c \<in> set ready then None else epoll s c)"
    proof
      fix c
      show "epoll (snd (dispatch_events getitem s (select s ready))) c =
         (if c \<in> set ready then None else epoll s c)"
        using e inset [of c] by (cases "epoll s c") auto
    qed
    then show "loop_events (trace (snd (dispatch_events getitem s (select s ready)))) =
        loop_events (trace s) @
        concat (map (\<lambda>k. [EpollUnregister (fst k), dispatch_mark s k]) (select s ready)) \<and>
      threads (snd (dispatch_events getitem s (select s ready))) =
        threads s @ (if run_in_subthread s client_callback then map snd (select s ready) else []) \<and>
      (\<forall>c. epoll (snd (dispatch_events getitem s (select s ready))) c =
         (if c \<in> set ready then None else epoll s c))"
      using lp ok by blast
  qed
  have l3: "\<forall>e. fst (dispatch_events getitem s (select s ready)) = Inl e \<longrightarrow>
      (\<exists>n < length (select s ready).
         loop_events (trace (snd (dispatch_events getitem s (select s ready)))) =
           loop_events (trace s) @
           concat (map (\<lambda>k. [EpollUnregister (fst k), dispatch_mark s k])
             (take (Suc n) (select s ready))))"
    using lp by blast
  have t: "started s \<and> \<not> stop_events s Stage_recv \<and> \<not> stop_signal s \<and>
    fst (dispatch_events getitem s (select s ready)) = Inr () \<longrightarrow>
      serve_recv getitem s ready = snd (dispatch_events getitem s (select s ready))"
    by (cases "dispatch_events getitem s (select s ready)") (simp add: serve_recv_def)
  have g: "rearm_when_idle getitem (Socket_init\<lparr>run_in_subthread := p\<rparr>) acts \<longrightarrow>
      (\<forall>c. dispatching (run getitem (Socket_init\<lparr>run_in_subthread := p\<rparr>) acts) c \<le> 1 \<and>
           (epoll (run getitem (Socket_init\<lparr>run_in_subthread := p\<rparr>) acts) c \<noteq> None \<longrightarrow>
              dispatching (run getitem (Socket_init\<lparr>run_in_subthread := p\<rparr>) acts) c = 0))"
    using run_inv [of "Socket_init\<lparr>run_in_subthread := p\<rparr>" getitem acts "{}"]
      init_policy_inv [of p]
    unfolding one_shot_def by blast
  show ?thesis using a1 a2 b c l1 l2 l3 t g by blast
qed


theorem unregister_before_dispatch_witness:
  "select (run (\<lambda>m. Inr (Str m)) (Socket_init\<lparr>run_in_subthread := (\<lambda>k. False)\<rparr>) arm_two)
     [2, 1, 2, 3] = [(1, (Socket_recv, [Conn 1])), (2, (Socket_recv, [Conn 2]))] \<and>
   rearm_when_idle (\<lambda>m. Inr (Str m)) (Socket_init\<lparr>run_in_subthread := (\<lambda>k. False)\<rparr>)
     (arm_two @ [Poll [2, 1, 2, 3]]) \<and>
   trace (run (\<lambda>m. Inr (Str m)) (Socket_init\<lparr>run_in_subthread := (\<lambda>k. False)\<rparr>)
     (arm_two @ [Poll [2, 1, 2, 3]])) =
     [ServerBind, ServerListen, ServeThreadsStart, Call on_start [],
      Call on_connect [Conn 1], Call on_connect [Conn 2], EpollRegister 1, EpollRegister 2,
      EpollUnregister 1, DispatchInline Socket_recv [Conn 1], Call on_recv [Conn 1, Bytes ''a''],
      EpollUnregister 2, DispatchInline Socket_recv [Conn 2], Call on_recv [Conn 2, Bytes ''b'']] \<and>
   threads (run (\<lambda>m. Inr (Str m)) (Socket_init\<lparr>run_in_subthread := (\<lambda>k. False)\<rparr>)
     (arm_two @ [Poll [2, 1, 2, 3]])) = [] \<and>
   rearm_when_idle (\<lambda>m. Inr (Str m)) (Socket_init\<lparr>run_in_subthread := (\<lambda>k. k = client_callback)\<rparr>)
     (arm_two @ [Poll [2, 1, 2, 3], ThreadRun 0, Register 1 False]) \<and>
   loop_events (trace (run (\<lambda>m. Inr (Str m))
     (Socket_init\<lparr>run_in_subthread := (\<lambda>k. k = client_callback)\<rparr>)
     (arm_two @ [Poll [2, 1, 2, 3]]))) =
     [EpollUnregister 1, DispatchThread Socket_recv [Conn 1],
      EpollUnregister 2, DispatchThread Socket_recv [Conn 2]] \<and>
   threads (run (\<lambda>m. Inr (Str m)) (Socket_init\<lparr>run_in_subthread := (\<lambda>k. k = client_callback)\<rparr>)
     (arm_two @ [Poll [2, 1, 2, 3]])) = [(Socket_recv, [Conn 1]), (Socket_recv, [Conn 2])] \<and>
   epoll (run (\<lambda>m. Inr (Str m)) (Socket_init\<lparr>run_in_subthread := (\<lambda>k. k = client_callback)\<rparr>)
     (arm_two @ [Poll [2, 1, 2, 3]])) 2 = None \<and>
   dispatching (run (\<lambda>m. Inr (Str m)) (Socket_init\<lparr>run_in_subthread := (\<lambda>k. k = client_callback)\<rparr>)
     (arm_two @ [Poll [2, 1, 2, 3], ThreadRun 0, Register 1 False])) 2 = 1"
  using unregister_before_dispatch [of
      "run (\<lambda>m. Inr (Str m)) (Socket_init\<lparr>run_in_subthread := (\<lambda>k. False)\<rparr>) arm_two"
      "[2, 1, 2, 3]" 1 "(Socket_recv, [Conn 1])" "\<lambda>m. Inr (Str m)" "\<lambda>k. False"
      "arm_two @ [Poll [2, 1, 2, 3]]"]
    unregister_before_dispatch [of
      "run (\<lambda>m. Inr (Str m)) (Socket_init\<lparr>run_in_subthread := (\<lambda>k. k = client_callback)\<rparr>) arm_two"
      "[2, 1, 2, 3]" 2 "(Socket_recv, [Conn 2])" "\<lambda>m. Inr (Str m)" "\<lambda>k. k = client_callback"
      "arm_two @ [Poll [2, 1, 2, 3], ThreadRun 0, Register 1 False]"]
  by (simp add: eval_defs arm_two_def loop_events_def is_loop_event_def dispatch_mark_def)


subsection \<open>Admission\<close>

text \<open>
  C4. A turn of the admission stage that pops a connection puts its record into the
  registry, fires \<open>on_connect\<close> for it and leaves the watch set as it was. In every
  run from the fresh server, whatever the peers send and whatever the kernel reports
  readable, when \<open>on_recv\<close> has fired for a connection then \<open>register\<close> was called
  on that connection in the run; the run being any, the call stands before the
  firing.
\<close>

theorem receive_only_after_register:
  "(started s \<and> \<not> stop_events s Stage_handle_connects \<and> \<not> stop_signal s \<and>
    accept_queue s = (c, peer) # rest \<longrightarrow>
      epoll (serve_handle_connects s) = epoll s \<and>
      map_of (clients (serve_handle_connects s)) c =
        Some \<lparr>address = peer, callback_function = Socket_recv, callback_args = [Conn c]\<rparr> \<and>
      trace (serve_handle_connects s) = trace s @ [fire s on_connect [Conn c]] \<and>
      accept_queue (serve_handle_connects s) = rest) \<and>
   (\<forall>args. Call on_recv (Conn c # args) \<in> set (trace (run getitem Socket_init acts)) \<or>
           Spawn on_recv (Conn c # args) \<in> set (trace (run getitem Socket_init acts)) \<longrightarrow>
      (\<exists>silent. Register c silent \<in> set acts))"
proof -
  have a: "started s \<and> \<not> stop_events s Stage_handle_connects \<and> \<not> stop_signal s \<and>
    accept_queue s = (c, peer) # rest \<longrightarrow>
      epoll (serve_handle_connects s) = epoll s \<and>
      map_of (clients (serve_handle_connects s)) c =
        Some \<lparr>address = peer, callback_function = Socket_recv, callback_args = [Conn c]\<rparr> \<and>
      trace (serve_handle_connects s) = trace s @ [fire s on_connect [Conn c]] \<and>
      accept_queue (serve_handle_connects s) = rest"
    by (simp add: serve_handle_connects_def call_on_function_def log_def fire_def Let_def
        update_conv')
  have "reg_inv (registered acts) (run getitem Socket_init acts)"
    using run_inv [of Socket_init getitem acts "{}"] init_inv by simp
  then have "recv_fired (trace (run getitem Socket_init acts)) \<subseteq> registered acts"
    by (simp add: reg_inv_def)
  then have b: "\<forall>args. Call on_recv (Conn c # args) \<in> set (trace (run getitem Socket_init acts)) \<or>
           Spawn on_recv (Conn c # args) \<in> set (trace (run getitem Socket_init acts)) \<longrightarrow>
      (\<exists>silent. Register c silent \<in> set acts)"
    unfolding recv_fired_def registered_def by blast
  show ?thesis using a b by blast
qed

theorem receive_only_after_register_witness:
  "Call on_recv [Conn 1, Bytes ''x''] \<in> set (trace (run (\<lambda>m. Inr (Str m)) Socket_init
     [Start, Accept (Some (1, ''peer'')), Admit, PeerSends 1 (RxData ''x''), Poll [1],
      Register 1 False, Poll [1], ThreadRun 0])) \<and>
   Register 1 False \<in> set
     [Start, Accept (Some (1, ''peer'')), Admit, PeerSends 1 (RxData ''x''), Poll [1],
      Register 1 False, Poll [1], ThreadRun 0] \<and>
   trace (run (\<lambda>m. Inr (Str m)) Socket_init
     [Start, Accept (Some (1, ''peer'')), Admit, PeerSends 1 (RxData ''x''), Poll [1]]) =
     [ServerBind, ServerListen, ServeThreadsStart, Call on_start [], Call on_connect [Conn 1]] \<and>
   epoll (run (\<lambda>m. Inr (Str m)) Socket_init
     [Start, Accept (Some (1, ''peer'')), Admit, PeerSends 1 (RxData ''x''), Poll [1]]) 1 = None \<and>
   map fst (clients (run (\<lambda>m. Inr (Str m)) Socket_init
     [Start, Accept (Some (1, ''peer'')), Admit])) = [1]"
  using receive_only_after_register [of
      "run (\<lambda>m. Inr (Str m)) Socket_init [Start, Accept (Some (1, ''peer''))]" 1 "''peer''" "[]"
      "\<lambda>m. Inr (Str m)"
      "[Start, Accept (Some (1, ''peer'')), Admit, PeerSends 1 (RxData ''x''), Poll [1],
        Register 1 False, Poll [1], ThreadRun 0]"]
  by (simp add: eval_defs)


subsection \<open>The send lock\<close>

text \<open>
  C2 fails on the code: the records of two admitted connections hold the same lock,
  the one lock of the class, and a sender that holds it for connection 1 makes
  \<open>send_raw\<close> on connection 2 wait.
\<close>

theorem send_lock_shared:
  "map fst (clients (run (\<lambda>m. Inr (Str m)) Socket_init
     [Start, Accept (Some (1, ''peer1'')), Accept (Some (2, ''peer2'')), Admit, Admit])) = [1, 2] \<and>
   map (\<lambda>x. send_lock (snd x)) (clients (run (\<lambda>m. Inr (Str m)) Socket_init
     [Start, Accept (Some (1, ''peer1'')), Accept (Some (2, ''peer2'')), Admit, Admit])) =
     [ClientInfo_send_lock, ClientInfo_send_lock] \<and>
   fst (send_raw
     ((run (\<lambda>m. Inr (Str m)) Socket_init
        [Start, Accept (Some (1, ''peer1'')), Accept (Some (2, ''peer2'')), Admit, Admit])
      \<lparr>locks := (\<lambda>l. l = send_lock
          \<lparr>address = ''peer1'', callback_function = Socket_recv, callback_args = [Conn 1]\<rparr>)\<rparr>)
     2 ''x'' True) = Blocks"
  by (simp add: eval_defs send_raw_def send_lock_def)

end
